theory Spec2Isabelle
  imports Main "HOL-Library.Word" "HOL-Library.List_Lexorder" "HOL-Library.Char_ord"
begin

section \<open>The values of the library the dispatcher is written against\<close>

text \<open>
  \<^verbatim>\<open>folly::dynamic\<close> is the JSON-like value of every inbound and outbound message.
  The constructors are the library's type tags. \<^verbatim>\<open>DOUBLE\<close> is left out: no path of
  \<^verbatim>\<open>FlipperClient.cpp\<close> reads or builds a floating-point value. An object is an
  association list read with \<open>map_of\<close> (the first binding of a key is the one found).
\<close>

datatype dynamic =
    NULLT
  | BOOL bool
  | INT64 "64 word"
  | STRING string
  | ARRAY "dynamic list"
  | OBJECT "(string \<times> dynamic) list"

text \<open>
  What a C++ \<^verbatim>\<open>throw\<close> carries. \<open>out_of_range\<close> is \<^verbatim>\<open>std::out_of_range\<close> (thrown by
  the dispatcher itself and by the library's key lookup), \<open>TypeError\<close> is the library's
  \<^verbatim>\<open>folly::TypeError\<close> (expected and actual type), \<open>std_exception\<close> any other class
  derived from \<^verbatim>\<open>std::exception\<close> (a plugin callback may throw one), and \<open>non_std\<close> a
  thrown value of any other type, which only \<^verbatim>\<open>catch (...)\<close> intercepts. The text of a
  \<open>TypeError\<close> is the library's wording for one actual type; where the arithmetic
  operator fails, the library names both operand types, and they are given here in one
  string. Nothing below depends on the wording.
\<close>

datatype exn =
    out_of_range string
  | TypeError string string
  | std_exception string
  | non_std

fun is_std_exception :: "exn \<Rightarrow> bool" where
  "is_std_exception non_std = False"
| "is_std_exception _ = True"

fun what :: "exn \<Rightarrow> string" where
  "what (out_of_range m) = m"
| "what (TypeError expected actual) =
     ''TypeError: expected dynamic type '' @ [CHR 0x60] @ expected @ [CHR 0x27] @
     '', but had type '' @ [CHR 0x60] @ actual @ [CHR 0x27]"
| "what (std_exception m) = m"
| "what non_std = []"

fun typeName :: "dynamic \<Rightarrow> string" where
  "typeName NULLT = ''null''"
| "typeName (BOOL _) = ''boolean''"
| "typeName (INT64 _) = ''int64''"
| "typeName (STRING _) = ''string''"
| "typeName (ARRAY _) = ''array''"
| "typeName (OBJECT _) = ''object''"

text \<open>\<^verbatim>\<open>d[key]\<close> on a const value, with a string key: the library's \<^verbatim>\<open>at\<close>.\<close>

fun at :: "dynamic \<Rightarrow> string \<Rightarrow> exn + dynamic" where
  "at (OBJECT kvs) k =
     (case map_of kvs k of
        None \<Rightarrow> Inl (out_of_range (''couldn'' @ [CHR 0x27] @ ''t find key '' @ k @ '' in dynamic object''))
      | Some v \<Rightarrow> Inr v)"
| "at (ARRAY xs) k = Inl (TypeError ''int64'' ''string'')"
| "at d k = Inl (TypeError ''object/array'' (typeName d))"

text \<open>\<^verbatim>\<open>d.getDefault(key)\<close>: the second argument defaults to an empty object.\<close>

fun getDefault :: "dynamic \<Rightarrow> string \<Rightarrow> exn + dynamic" where
  "getDefault (OBJECT kvs) k =
     (case map_of kvs k of None \<Rightarrow> Inr (OBJECT []) | Some v \<Rightarrow> Inr v)"
| "getDefault d k = Inl (TypeError ''object'' (typeName d))"

text \<open>\<^verbatim>\<open>d.find(key) != d.items().end()\<close>.\<close>

fun has_key :: "dynamic \<Rightarrow> string \<Rightarrow> exn + bool" where
  "has_key (OBJECT kvs) k = Inr (map_of kvs k \<noteq> None)"
| "has_key d k = Inl (TypeError ''object'' (typeName d))"

fun getInt :: "dynamic \<Rightarrow> exn + 64 word" where
  "getInt (INT64 i) = Inr i"
| "getInt d = Inl (TypeError ''int64'' (typeName d))"

fun getString :: "dynamic \<Rightarrow> exn + string" where
  "getString (STRING s) = Inr s"
| "getString d = Inl (TypeError ''string'' (typeName d))"

text \<open>
  \<^verbatim>\<open>a + b\<close> on two values, as far as the dispatcher uses it: the left operand is a
  string literal. Two strings are concatenated; any other right operand goes to the
  numeric operators, which refuse the string on the left.
\<close>

fun plus_string :: "string \<Rightarrow> dynamic \<Rightarrow> exn + dynamic" where
  "plus_string a (STRING b) = Inr (STRING (a @ b))"
| "plus_string a d = Inl (TypeError ''numeric'' (''string and '' @ typeName d))"

section \<open>\<^verbatim>\<open>std::map\<close> with string keys\<close>

text \<open>
  A \<^verbatim>\<open>std::map<std::string, T>\<close> is the list of its entries in iteration order, that
  is in increasing key order. \<open>map_find\<close> is \<^verbatim>\<open>find\<close> (and \<^verbatim>\<open>at\<close> where the key is
  known to be present), \<open>map_assign\<close> is \<^verbatim>\<open>m[k] = v\<close>, \<open>map_erase\<close> is \<^verbatim>\<open>erase(k)\<close>.
\<close>

definition map_find :: "string \<Rightarrow> (string \<times> 'v) list \<Rightarrow> 'v option" where
  "map_find k m = map_of m k"

fun map_assign :: "string \<Rightarrow> 'v \<Rightarrow> (string \<times> 'v) list \<Rightarrow> (string \<times> 'v) list" where
  "map_assign k v [] = [(k, v)]"
| "map_assign k v ((k', v') # m) =
     (if k < k' then (k, v) # (k', v') # m
      else if k = k' then (k, v) # m
      else (k', v') # map_assign k v m)"

definition map_erase :: "string \<Rightarrow> (string \<times> 'v) list \<Rightarrow> (string \<times> 'v) list" where
  "map_erase k m = filter (\<lambda>kv. fst kv \<noteq> k) m"

definition std_map :: "(string \<times> 'v) list \<Rightarrow> bool" where
  "std_map m = sorted_wrt (<) (map fst m)"

section \<open>Plugins, connection handles and the client\<close>

text \<open>
  A plugin is an object behind the \<^verbatim>\<open>FlipperPlugin\<close> interface. The dispatcher reads its
  identifier and its background flag and calls it back; what a callback does to the
  dispatcher is that it returns or throws, so a plugin carries, for each callback, which
  of the two it does.
\<close>

datatype behaviour = Completes | Raises exn

record plugin =
  pluginIdentifier :: string
  runInBackground :: bool
  didConnect :: behaviour
  didDisconnect :: behaviour
  handleCall :: behaviour

text \<open>
  Modelled from the spec: \<^verbatim>\<open>FlipperConnectionImpl\<close> (\<^verbatim>\<open>FlipperConnectionImpl.h\<close> is not
  among the sources). A handle is bound to a plugin identifier and forwards \<^verbatim>\<open>call\<close> to
  the message-handling callback of the plugin it was handed to. \<open>handle\<close> tells one
  allocated handle from another: it is the number of handles allocated before it.
\<close>

record connection =
  handle :: nat
  name :: string
  receiver :: behaviour

text \<open>Everything the dispatcher does to its collaborators, in the order it does it.\<close>

datatype event =
    Log string
  | Stdout string
  | StepStart string
  | StepComplete string
  | SendMessage dynamic
  | ResponderSuccess "64 word" dynamic
  | ResponderError "64 word" dynamic
  | DidConnect string nat
  | DidDisconnect string
  | HandleCall string string dynamic "64 word option"

text \<open>
  The members \<^verbatim>\<open>plugins_\<close>, \<^verbatim>\<open>connections_\<close> and \<^verbatim>\<open>connected_\<close> of
  \<^verbatim>\<open>FlipperClient\<close>, with \<open>trace\<close>, the events so far, and \<open>allocated\<close>, the number of
  connection handles allocated so far. The mutex is not modelled: every entry point
  holds it from start to end, so the entry points run one after another.
\<close>

record client =
  plugins :: "(string \<times> plugin) list"
  connections :: "(string \<times> connection) list"
  connected :: bool
  trace :: "event list"
  allocated :: nat

text \<open>
  How a piece of code ends: it returns, it throws, or it dereferences an empty
  \<^verbatim>\<open>std::unique_ptr\<close>, which is undefined behaviour and no exception: no handler sees it.
\<close>

datatype outcome = Returns | Throws exn | NullDeref

definition emit :: "event \<Rightarrow> client \<Rightarrow> client" where
  "emit e s = s\<lparr>trace := trace s @ [e]\<rparr>"

definition callback :: "behaviour \<Rightarrow> outcome" where
  "callback b = (case b of Completes \<Rightarrow> Returns | Raises e \<Rightarrow> Throws e)"

text \<open>
  \<^verbatim>\<open>std::make_shared<FlipperConnectionImpl>(socket_.get(), id)\<close> stored under
  \<^verbatim>\<open>connections_[id]\<close>, then \<^verbatim>\<open>plugin->didConnect(conn)\<close>: the three statements that both
  \<^verbatim>\<open>startBackgroundPlugins\<close> and the \<^verbatim>\<open>init\<close> branch run.
\<close>

definition connect :: "string \<Rightarrow> plugin \<Rightarrow> client \<Rightarrow> outcome \<times> client" where
  "connect k p s =
     (let conn = \<lparr>handle = allocated s, name = k, receiver = handleCall p\<rparr>;
          s1 = s\<lparr>connections := map_assign k conn (connections s),
                 allocated := Suc (allocated s)\<rparr>
      in (callback (didConnect p), emit (DidConnect (pluginIdentifier p) (handle conn)) s1))"

text \<open>\<^verbatim>\<open>FlipperClient::disconnect\<close>.\<close>

definition disconnect :: "plugin \<Rightarrow> client \<Rightarrow> outcome \<times> client" where
  "disconnect p s =
     (case map_find (pluginIdentifier p) (connections s) of
        None \<Rightarrow> (Returns, s)
      | Some conn \<Rightarrow>
          (callback (didDisconnect p),
           emit (DidDisconnect (pluginIdentifier p))
             (s\<lparr>connections := map_erase (pluginIdentifier p) (connections s)\<rparr>)))"

text \<open>
  \<^verbatim>\<open>FlipperClient::performAndReportError\<close>. \<open>crash\<close> is the compile-time flag
  \<^verbatim>\<open>FLIPPER_ENABLE_CRASH\<close>: when set, the function is called bare.
\<close>

definition error_message :: "string \<Rightarrow> dynamic" where
  "error_message w =
     OBJECT [(''error'', OBJECT [(''message'', STRING w), (''stacktrace'', STRING ''<none>'')])]"

definition performAndReportError ::
  "bool \<Rightarrow> (client \<Rightarrow> outcome \<times> client) \<Rightarrow> client \<Rightarrow> outcome \<times> client" where
  "performAndReportError crash func s =
     (if crash then func s
      else
        (case func s of
           (Throws e, s') \<Rightarrow>
             if is_std_exception e then
               (if connected s' then (Returns, emit (SendMessage (error_message (what e))) s')
                else (Returns, emit (Log (''Error: '' @ what e)) s'))
             else (Returns, emit (Log ''Unknown error suppressed in FlipperClient'') s')
         | r \<Rightarrow> r))"

text \<open>\<^verbatim>\<open>FlipperClient::refreshPlugins\<close>.\<close>

definition refreshPlugins :: "bool \<Rightarrow> client \<Rightarrow> outcome \<times> client" where
  "refreshPlugins crash s =
     performAndReportError crash
       (\<lambda>s. (Returns, emit (SendMessage (OBJECT [(''method'', STRING ''refreshPlugins'')])) s)) s"

text \<open>\<^verbatim>\<open>FlipperClient::addPlugin\<close>: the function handed to the wrapper, then the entry point.\<close>

definition addPlugin_lambda :: "bool \<Rightarrow> plugin \<Rightarrow> client \<Rightarrow> outcome \<times> client" where
  "addPlugin_lambda crash p s =
     (let s1 = emit (Log (''FlipperClient::addPlugin '' @ pluginIdentifier p)) s;
          s2 = emit (StepStart (''Add plugin '' @ pluginIdentifier p)) s1
      in if map_find (pluginIdentifier p) (plugins s2) \<noteq> None
         then (Throws (out_of_range (''plugin '' @ pluginIdentifier p @ '' already added.'')), s2)
         else
           (let s3 = s2\<lparr>plugins := map_assign (pluginIdentifier p) p (plugins s2)\<rparr>;
                s4 = emit (StepComplete (''Add plugin '' @ pluginIdentifier p)) s3
            in if connected s4 then refreshPlugins crash s4 else (Returns, s4)))"

definition addPlugin :: "bool \<Rightarrow> plugin \<Rightarrow> client \<Rightarrow> outcome \<times> client" where
  "addPlugin crash p s = performAndReportError crash (addPlugin_lambda crash p) s"

text \<open>\<^verbatim>\<open>FlipperClient::removePlugin\<close>.\<close>

definition removePlugin_lambda :: "bool \<Rightarrow> plugin \<Rightarrow> client \<Rightarrow> outcome \<times> client" where
  "removePlugin_lambda crash p s =
     (let s1 = emit (Log (''FlipperClient::removePlugin '' @ pluginIdentifier p)) s
      in if map_find (pluginIdentifier p) (plugins s1) = None
         then (Throws (out_of_range (''plugin '' @ pluginIdentifier p @ '' not added.'')), s1)
         else
           (case disconnect p s1 of
              (Returns, s2) \<Rightarrow>
                (let s3 = s2\<lparr>plugins := map_erase (pluginIdentifier p) (plugins s2)\<rparr>
                 in if connected s3 then refreshPlugins crash s3 else (Returns, s3))
            | r \<Rightarrow> r))"

definition removePlugin :: "bool \<Rightarrow> plugin \<Rightarrow> client \<Rightarrow> outcome \<times> client" where
  "removePlugin crash p s = performAndReportError crash (removePlugin_lambda crash p) s"

text \<open>
  \<^verbatim>\<open>FlipperClient::startBackgroundPlugins\<close>: the loop over \<^verbatim>\<open>plugins_\<close>, which the body
  does not change, so the entries still to visit are an argument.
\<close>

fun startBackgroundPlugins_loop :: "(string \<times> plugin) list \<Rightarrow> client \<Rightarrow> outcome \<times> client" where
  "startBackgroundPlugins_loop [] s = (Returns, s)"
| "startBackgroundPlugins_loop (it # rest) s =
     (let s1 = emit (Stdout (fst it)) s
      in if runInBackground (snd it) then
           (case connect (fst it) (snd it) s1 of
              (Returns, s2) \<Rightarrow> startBackgroundPlugins_loop rest s2
            | r \<Rightarrow> r)
         else startBackgroundPlugins_loop rest s1)"

definition startBackgroundPlugins :: "client \<Rightarrow> outcome \<times> client" where
  "startBackgroundPlugins s =
     startBackgroundPlugins_loop (plugins s) (emit (Stdout ''Activating Background Plugins...'') s)"

text \<open>\<^verbatim>\<open>FlipperClient::onConnected\<close>.\<close>

definition onConnected_lambda :: "client \<Rightarrow> outcome \<times> client" where
  "onConnected_lambda s =
     (let s1 = emit (Log ''FlipperClient::onConnected'') s;
          s2 = s1\<lparr>connected := True\<rparr>
      in startBackgroundPlugins s2)"

definition onConnected :: "bool \<Rightarrow> client \<Rightarrow> outcome \<times> client" where
  "onConnected crash s = performAndReportError crash onConnected_lambda s"

text \<open>\<^verbatim>\<open>FlipperClient::onDisconnected\<close>: the loop over \<^verbatim>\<open>plugins_\<close>, then the entry point.\<close>

fun onDisconnected_loop :: "(string \<times> plugin) list \<Rightarrow> client \<Rightarrow> outcome \<times> client" where
  "onDisconnected_loop [] s = (Returns, s)"
| "onDisconnected_loop (iter # rest) s =
     (case disconnect (snd iter) s of
        (Returns, s1) \<Rightarrow> onDisconnected_loop rest s1
      | r \<Rightarrow> r)"

definition onDisconnected_lambda :: "client \<Rightarrow> outcome \<times> client" where
  "onDisconnected_lambda s =
     (let s1 = emit (Log ''FlipperClient::onDisconnected'') s;
          s2 = emit (StepStart ''Trigger onDisconnected callbacks'') s1;
          s3 = s2\<lparr>connected := False\<rparr>
      in case onDisconnected_loop (plugins s3) s3 of
           (Returns, s4) \<Rightarrow> (Returns, emit (StepComplete ''Trigger onDisconnected callbacks'') s4)
         | r \<Rightarrow> r)"

definition onDisconnected :: "bool \<Rightarrow> client \<Rightarrow> outcome \<times> client" where
  "onDisconnected crash s = performAndReportError crash onDisconnected_lambda s"

section \<open>Message dispatch\<close>

text \<open>
  The responder of a message: \<^verbatim>\<open>std::unique_ptr<FlipperResponderImpl>\<close>, empty unless the
  message has an \<^verbatim>\<open>id\<close>. It is the id it answers to, or \<open>None\<close> for the empty pointer.
\<close>

definition make_responder :: "dynamic \<Rightarrow> exn + 64 word option" where
  "make_responder message =
     (case has_key message ''id'' of
        Inl e \<Rightarrow> Inl e
      | Inr False \<Rightarrow> Inr None
      | Inr True \<Rightarrow>
          (case at message ''id'' of
             Inl e \<Rightarrow> Inl e
           | Inr v \<Rightarrow> (case getInt v of Inl e \<Rightarrow> Inl e | Inr i \<Rightarrow> Inr (Some i))))"

text \<open>
  Modelled from the spec: \<^verbatim>\<open>FlipperResponderImpl\<close> (\<^verbatim>\<open>FlipperResponderImpl.h\<close> is not
  among the sources): \<^verbatim>\<open>success\<close> and \<^verbatim>\<open>error\<close> put a response addressed to the
  responder's id on the transport. Calling either through the empty pointer is the
  null dereference.
\<close>

definition responder_success :: "64 word option \<Rightarrow> dynamic \<Rightarrow> client \<Rightarrow> outcome \<times> client" where
  "responder_success responder response s =
     (case responder of
        None \<Rightarrow> (NullDeref, s)
      | Some i \<Rightarrow> (Returns, emit (ResponderSuccess i response) s))"

definition responder_error :: "64 word option \<Rightarrow> dynamic \<Rightarrow> client \<Rightarrow> outcome \<times> client" where
  "responder_error responder response s =
     (case responder of
        None \<Rightarrow> (NullDeref, s)
      | Some i \<Rightarrow> (Returns, emit (ResponderError i response) s))"

text \<open>
  Modelled from the spec: \<^verbatim>\<open>FlipperConnectionImpl::call\<close>, which forwards the invocation
  to the plugin's message-handling callback together with the responder.
\<close>

definition connection_call ::
  "connection \<Rightarrow> string \<Rightarrow> dynamic \<Rightarrow> 64 word option \<Rightarrow> client \<Rightarrow> outcome \<times> client" where
  "connection_call conn m ps responder s =
     (callback (receiver conn), emit (HandleCall (name conn) m ps responder) s)"

text \<open>The four recognised methods, each the body of its \<^verbatim>\<open>if\<close> in the source.\<close>

definition getPlugins_branch :: "64 word option \<Rightarrow> client \<Rightarrow> outcome \<times> client" where
  "getPlugins_branch responder s =
     (let identifiers = ARRAY (map (\<lambda>elem. STRING (fst elem)) (plugins s));
          response = OBJECT [(''plugins'', identifiers)]
      in responder_success responder response s)"

definition plugin_not_found :: "string \<Rightarrow> dynamic \<Rightarrow> exn" where
  "plugin_not_found ident method =
     (case getString method of
        Inl e \<Rightarrow> e
      | Inr m \<Rightarrow> out_of_range (''plugin '' @ ident @ '' not found for method '' @ m))"

definition init_branch :: "dynamic \<Rightarrow> dynamic \<Rightarrow> client \<Rightarrow> outcome \<times> client" where
  "init_branch method params s =
     (case at params ''plugin'' of
        Inl e \<Rightarrow> (Throws e, s)
      | Inr v \<Rightarrow>
          (case getString v of
             Inl e \<Rightarrow> (Throws e, s)
           | Inr ident \<Rightarrow>
               (case map_find ident (plugins s) of
                  None \<Rightarrow> (Throws (plugin_not_found ident method), s)
                | Some p \<Rightarrow>
                    if \<not> runInBackground p then connect (pluginIdentifier p) p s
                    else (Returns, s))))"

definition deinit_branch :: "dynamic \<Rightarrow> dynamic \<Rightarrow> client \<Rightarrow> outcome \<times> client" where
  "deinit_branch method params s =
     (case at params ''plugin'' of
        Inl e \<Rightarrow> (Throws e, s)
      | Inr v \<Rightarrow>
          (case getString v of
             Inl e \<Rightarrow> (Throws e, s)
           | Inr ident \<Rightarrow>
               (case map_find ident (plugins s) of
                  None \<Rightarrow> (Throws (plugin_not_found ident method), s)
                | Some p \<Rightarrow>
                    if \<not> runInBackground p then disconnect p s
                    else (Returns, s))))"

definition connection_not_found :: "string \<Rightarrow> dynamic \<Rightarrow> exn" where
  "connection_not_found ident method =
     (case getString method of
        Inl e \<Rightarrow> e
      | Inr m \<Rightarrow> out_of_range (''connection '' @ ident @ '' not found for method '' @ m))"

definition execute_branch ::
  "dynamic \<Rightarrow> dynamic \<Rightarrow> 64 word option \<Rightarrow> client \<Rightarrow> outcome \<times> client" where
  "execute_branch method params responder s =
     (case at params ''api'' of
        Inl e \<Rightarrow> (Throws e, s)
      | Inr v \<Rightarrow>
          (case getString v of
             Inl e \<Rightarrow> (Throws e, s)
           | Inr ident \<Rightarrow>
               (case map_find ident (connections s) of
                  None \<Rightarrow> (Throws (connection_not_found ident method), s)
                | Some conn \<Rightarrow>
                    (case at params ''method'' of
                       Inl e \<Rightarrow> (Throws e, s)
                     | Inr mv \<Rightarrow>
                         (case getString mv of
                            Inl e \<Rightarrow> (Throws e, s)
                          | Inr m \<Rightarrow>
                              (case getDefault params ''params'' of
                                 Inl e \<Rightarrow> (Throws e, s)
                               | Inr ps \<Rightarrow> connection_call conn m ps responder s))))))"

definition unknown_method :: "dynamic \<Rightarrow> 64 word option \<Rightarrow> client \<Rightarrow> outcome \<times> client" where
  "unknown_method method responder s =
     (case plus_string ''Received unknown method: '' method of
        Inl e \<Rightarrow> (Throws e, s)
      | Inr text \<Rightarrow> responder_error responder (OBJECT [(''message'', text)]) s)"

text \<open>\<^verbatim>\<open>FlipperClient::onMessageReceived\<close>.\<close>

definition onMessageReceived_lambda :: "dynamic \<Rightarrow> client \<Rightarrow> outcome \<times> client" where
  "onMessageReceived_lambda message s =
     (case at message ''method'' of
        Inl e \<Rightarrow> (Throws e, s)
      | Inr method \<Rightarrow>
          (case getDefault message ''params'' of
             Inl e \<Rightarrow> (Throws e, s)
           | Inr params \<Rightarrow>
               (case make_responder message of
                  Inl e \<Rightarrow> (Throws e, s)
                | Inr responder \<Rightarrow>
                    if method = STRING ''getPlugins'' then getPlugins_branch responder s
                    else if method = STRING ''init'' then init_branch method params s
                    else if method = STRING ''deinit'' then deinit_branch method params s
                    else if method = STRING ''execute'' then execute_branch method params responder s
                    else unknown_method method responder s)))"

definition onMessageReceived :: "bool \<Rightarrow> dynamic \<Rightarrow> client \<Rightarrow> outcome \<times> client" where
  "onMessageReceived crash message s =
     performAndReportError crash (onMessageReceived_lambda message) s"

text \<open>The client as its constructor leaves it.\<close>

definition new_client :: client where
  "new_client = \<lparr>plugins = [], connections = [], connected = False, trace = [], allocated = 0\<rparr>"

section \<open>The invariant of the two tables\<close>

definition keyed_by_identifier :: "client \<Rightarrow> bool" where
  "keyed_by_identifier s = list_all (\<lambda>kp. pluginIdentifier (snd kp) = fst kp) (plugins s)"

definition identifiers_unique :: "client \<Rightarrow> bool" where
  "identifiers_unique s = distinct (map (\<lambda>kp. pluginIdentifier (snd kp)) (plugins s))"

definition connection_implies_plugin :: "client \<Rightarrow> bool" where
  "connection_implies_plugin s =
     list_all (\<lambda>kc. fst kc \<in> set (map (\<lambda>kp. pluginIdentifier (snd kp)) (plugins s))) (connections s)"

definition client_inv :: "client \<Rightarrow> bool" where
  "client_inv s =
     (std_map (plugins s) \<and> std_map (connections s) \<and> keyed_by_identifier s \<and>
      identifiers_unique s \<and> connection_implies_plugin s)"

text \<open>
  The handles in the connection table are among those allocated so far, so a handle
  allocated next is none of them.
\<close>

definition handles_allocated :: "client \<Rightarrow> bool" where
  "handles_allocated s = list_all (\<lambda>kc. handle (snd kc) < allocated s) (connections s)"

text \<open>
  The states a client can be in: the constructor's, and what any entry point leaves
  behind, whatever its arguments and whichever way it ends.
\<close>

inductive reachable :: "client \<Rightarrow> bool" where
  reachable_new: "reachable new_client"
| reachable_addPlugin: "reachable s \<Longrightarrow> reachable (snd (addPlugin crash p s))"
| reachable_removePlugin: "reachable s \<Longrightarrow> reachable (snd (removePlugin crash p s))"
| reachable_onConnected: "reachable s \<Longrightarrow> reachable (snd (onConnected crash s))"
| reachable_onDisconnected: "reachable s \<Longrightarrow> reachable (snd (onDisconnected crash s))"
| reachable_onMessageReceived:
    "reachable s \<Longrightarrow> reachable (snd (onMessageReceived crash message s))"

text \<open>How often a plugin's callbacks were invoked, read off the trace.\<close>

definition didConnect_calls :: "string \<Rightarrow> event list \<Rightarrow> nat" where
  "didConnect_calls k t =
     length (filter (\<lambda>e. case e of DidConnect i h \<Rightarrow> i = k | _ \<Rightarrow> False) t)"

definition didDisconnect_calls :: "string \<Rightarrow> event list \<Rightarrow> nat" where
  "didDisconnect_calls k t =
     length (filter (\<lambda>e. case e of DidDisconnect i \<Rightarrow> i = k | _ \<Rightarrow> False) t)"

section \<open>Example plugins and clients\<close>

definition example_plugin :: "string \<Rightarrow> bool \<Rightarrow> behaviour \<Rightarrow> plugin" where
  "example_plugin ident background connects =
     \<lparr>pluginIdentifier = ident, runInBackground = background, didConnect = connects,
      didDisconnect = Completes, handleCall = Completes\<rparr>"

text \<open>
  A client whose registry holds the given plugins (given in identifier order), with no
  connection entry and nothing traced yet.
\<close>

definition example_client :: "plugin list \<Rightarrow> bool \<Rightarrow> client" where
  "example_client ps c =
     new_client\<lparr>plugins := map (\<lambda>p. (pluginIdentifier p, p)) ps, connected := c\<rparr>"

definition example_message :: "string \<Rightarrow> string \<Rightarrow> string \<Rightarrow> dynamic" where
  "example_message method key ident =
     OBJECT [(''method'', STRING method), (''params'', OBJECT [(key, STRING ident)])]"

text \<open>A new client on which the host has registered the given plugins, one after another.\<close>

definition example_registered :: "plugin list \<Rightarrow> client" where
  "example_registered ps = fold (\<lambda>p s. snd (addPlugin False p s)) ps new_client"

text \<open>
  A client on which the host has registered one plugin, \<open>a\<close>, and the remote side has
  initialised it.
\<close>

definition example_initialised :: client where
  "example_initialised =
     snd (onMessageReceived False (example_message ''init'' ''plugin'' ''a'')
       (snd (addPlugin False (example_plugin ''a'' False Completes) new_client)))"

section \<open>Facts about the tables\<close>

lemmas eval_defs = example_client_def example_plugin_def example_message_def new_client_def
  onConnected_def onConnected_lambda_def startBackgroundPlugins_def onDisconnected_def
  onDisconnected_lambda_def performAndReportError_def connect_def disconnect_def
  callback_def emit_def map_find_def map_erase_def error_message_def

lemma map_find_assign: "map_find x (map_assign k v m) = (if x = k then Some v else map_find x m)"
  by (induction m) (auto simp: map_find_def)

lemma keys_assign: "set (map fst (map_assign k v m)) = insert k (set (map fst m))"
  by (induction k v m rule: map_assign.induct) (simp_all add: insert_commute)

lemma std_map_assign: "std_map m \<Longrightarrow> std_map (map_assign k v m)"
  unfolding std_map_def
proof (induction m)
  case Nil
  then show ?case by simp
next
  case (Cons a m)
  have "set (map fst (map_assign k v m)) = insert k (set (map fst m))"
    by (rule keys_assign)
  with Cons show ?case by (cases a) auto
qed

lemma map_find_erase: "map_find x (map_erase k m) = (if x = k then None else map_find x m)"
  by (induction m) (auto simp: map_find_def map_erase_def)

lemma keys_erase: "set (map fst (map_erase k m)) = set (map fst m) - {k}"
  by (induction m) (auto simp: map_erase_def)

lemma std_map_erase: "std_map m \<Longrightarrow> std_map (map_erase k m)"
  unfolding std_map_def map_erase_def
  by (induction m) auto

lemma map_find_None: "map_find k m = None \<longleftrightarrow> k \<notin> set (map fst m)"
  by (simp add: map_find_def map_of_eq_None_iff)

lemma map_find_Some: "map_find k m = Some v \<Longrightarrow> (k, v) \<in> set m"
  by (simp add: map_find_def map_of_SomeD)

lemma set_assign_subset: "set (map_assign k v m) \<subseteq> insert (k, v) (set m)"
  by (induction k v m rule: map_assign.induct) auto

lemma set_erase_subset: "set (map_erase k m) \<subseteq> set m"
  by (auto simp: map_erase_def)

lemma map_erase_absent: "k \<notin> set (map fst m) \<Longrightarrow> map_erase k m = m"
  by (induction m) (auto simp: map_erase_def)

section \<open>The helpers keep the invariant\<close>

lemma emit_fields [simp]:
  "plugins (emit e s) = plugins s" "connections (emit e s) = connections s"
  "connected (emit e s) = connected s" "allocated (emit e s) = allocated s"
  "trace (emit e s) = trace s @ [e]"
  by (simp_all add: emit_def)

lemma client_inv_cong:
  "plugins s' = plugins s \<Longrightarrow> connections s' = connections s \<Longrightarrow> client_inv s' = client_inv s"
  by (simp add: client_inv_def keyed_by_identifier_def identifiers_unique_def
      connection_implies_plugin_def)

lemma client_inv_emit [simp]: "client_inv (emit e s) = client_inv s"
  by (rule client_inv_cong) simp_all

lemma keyed_identifiers:
  "keyed_by_identifier s \<Longrightarrow> map (\<lambda>kp. pluginIdentifier (snd kp)) (plugins s) = map fst (plugins s)"
  by (simp add: keyed_by_identifier_def list_all_iff)

lemma inv_assign_conn:
  assumes "client_inv s" and "k \<in> set (map fst (plugins s))"
    and "plugins s' = plugins s" and "connections s' = map_assign k c (connections s)"
  shows "client_inv s'"
proof -
  from assms(1) have keyed: "keyed_by_identifier s" by (simp add: client_inv_def)
  have ids: "map (\<lambda>kp. pluginIdentifier (snd kp)) (plugins s) = map fst (plugins s)"
    using keyed by (rule keyed_identifiers)
  have "set (map fst (map_assign k c (connections s))) \<subseteq> set (map fst (plugins s))"
    using assms(1,2) unfolding keys_assign
    by (auto simp: client_inv_def connection_implies_plugin_def list_all_iff ids)
  then have "connection_implies_plugin s'"
    using assms(3,4) by (auto simp: connection_implies_plugin_def list_all_iff ids)
  moreover have "std_map (connections s')"
    using assms(1,4) by (simp add: client_inv_def std_map_assign)
  ultimately show ?thesis
    using assms(1,3)
    by (simp add: client_inv_def keyed_by_identifier_def identifiers_unique_def)
qed

lemma inv_erase_conn:
  assumes "client_inv s"
    and "plugins s' = plugins s" and "connections s' = map_erase k (connections s)"
  shows "client_inv s'"
proof -
  have "set (connections s') \<subseteq> set (connections s)"
    using assms(3) by (simp add: set_erase_subset)
  then have "connection_implies_plugin s'"
    using assms(1,2) by (auto simp: client_inv_def connection_implies_plugin_def list_all_iff)
  moreover have "std_map (connections s')"
    using assms(1,3) by (simp add: client_inv_def std_map_erase)
  ultimately show ?thesis
    using assms(1,2)
    by (simp add: client_inv_def keyed_by_identifier_def identifiers_unique_def)
qed

lemma connect_fields:
  "plugins (snd (connect k p s)) = plugins s"
  "connected (snd (connect k p s)) = connected s"
  "connections (snd (connect k p s)) =
     map_assign k \<lparr>handle = allocated s, name = k, receiver = handleCall p\<rparr> (connections s)"
  by (simp_all add: connect_def Let_def)

lemma disconnect_fields:
  "plugins (snd (disconnect p s)) = plugins s"
  "connected (snd (disconnect p s)) = connected s"
  "connections (snd (disconnect p s)) = map_erase (pluginIdentifier p) (connections s)"
  by (auto simp: disconnect_def map_find_None map_erase_absent split: option.splits)

lemma inv_connect:
  "client_inv s \<Longrightarrow> k \<in> set (map fst (plugins s)) \<Longrightarrow> client_inv (snd (connect k p s))"
  by (erule inv_assign_conn) (simp_all add: connect_fields)

lemma inv_disconnect: "client_inv s \<Longrightarrow> client_inv (snd (disconnect p s))"
  by (erule inv_erase_conn) (simp_all add: disconnect_fields)

lemma startBackgroundPlugins_loop_plugins:
  "plugins (snd (startBackgroundPlugins_loop ps s)) = plugins s"
proof (induction ps arbitrary: s)
  case Nil
  then show ?case by simp
next
  case (Cons it rest)
  show ?case
  proof (cases "connect (fst it) (snd it) (emit (Stdout (fst it)) s)")
    case (Pair r s2)
    then have "plugins s2 = plugins s"
      using connect_fields(1) [of "fst it" "snd it" "emit (Stdout (fst it)) s"] by simp
    with Pair Cons.IH show ?thesis
      by (cases r) (simp_all add: Let_def)
  qed
qed

lemma inv_startBackgroundPlugins_loop:
  "client_inv s \<Longrightarrow> set (map fst ps) \<subseteq> set (map fst (plugins s)) \<Longrightarrow>
   client_inv (snd (startBackgroundPlugins_loop ps s))"
proof (induction ps arbitrary: s)
  case Nil
  then show ?case by simp
next
  case (Cons it rest)
  let ?s1 = "emit (Stdout (fst it)) s"
  show ?case
  proof (cases "connect (fst it) (snd it) ?s1")
    case (Pair r s2)
    have s2: "s2 = snd (connect (fst it) (snd it) ?s1)" using Pair by simp
    have inv2: "client_inv s2"
      unfolding s2 using Cons.prems by (intro inv_connect) simp_all
    have pl2: "plugins s2 = plugins s"
      unfolding s2 by (simp add: connect_fields)
    have "client_inv (snd (startBackgroundPlugins_loop rest s2))"
      using Cons.prems inv2 pl2 by (intro Cons.IH) simp_all
    moreover have "client_inv (snd (startBackgroundPlugins_loop rest ?s1))"
      using Cons.prems by (intro Cons.IH) simp_all
    ultimately show ?thesis
      using Pair inv2 by (cases r) (simp_all add: Let_def)
  qed
qed

lemma onDisconnected_loop_plugins:
  "plugins (snd (onDisconnected_loop ps s)) = plugins s"
proof (induction ps arbitrary: s)
  case Nil
  then show ?case by simp
next
  case (Cons iter rest)
  show ?case
  proof (cases "disconnect (snd iter) s")
    case (Pair r s1)
    then have "plugins s1 = plugins s"
      using disconnect_fields(1) [of "snd iter" s] by simp
    with Pair Cons.IH show ?thesis
      by (cases r) simp_all
  qed
qed

lemma inv_onDisconnected_loop:
  "client_inv s \<Longrightarrow> client_inv (snd (onDisconnected_loop ps s))"
proof (induction ps arbitrary: s)
  case Nil
  then show ?case by simp
next
  case (Cons iter rest)
  show ?case
  proof (cases "disconnect (snd iter) s")
    case (Pair r s1)
    then have "client_inv s1"
      using inv_disconnect [OF Cons.prems, of "snd iter"] by simp
    with Pair Cons.IH show ?thesis
      by (cases r) simp_all
  qed
qed

lemma inv_performAndReportError:
  "client_inv (snd (func s)) \<Longrightarrow> client_inv (snd (performAndReportError crash func s))"
  by (cases "func s") (auto simp: performAndReportError_def split: outcome.splits)

lemma performAndReportError_fields:
  "plugins (snd (performAndReportError crash func s)) = plugins (snd (func s))"
  "connections (snd (performAndReportError crash func s)) = connections (snd (func s))"
  "connected (snd (performAndReportError crash func s)) = connected (snd (func s))"
  by (cases "func s"; auto simp: performAndReportError_def split: outcome.splits)+

lemma inv_refreshPlugins: "client_inv s \<Longrightarrow> client_inv (snd (refreshPlugins crash s))"
  unfolding refreshPlugins_def by (rule inv_performAndReportError) simp

section \<open>The entry points keep the invariant\<close>

lemma client_inv_iff:
  "client_inv s \<longleftrightarrow>
     std_map (plugins s) \<and> std_map (connections s) \<and> keyed_by_identifier s \<and>
     set (map fst (connections s)) \<subseteq> set (map fst (plugins s))"
proof (cases "keyed_by_identifier s")
  case True
  note ids = keyed_identifiers [OF True]
  have "std_map (plugins s) \<Longrightarrow> distinct (map fst (plugins s))"
    by (simp add: std_map_def strict_sorted_iff)
  then show ?thesis
    using True
    by (auto simp: client_inv_def identifiers_unique_def connection_implies_plugin_def
        list_all_iff ids)
next
  case False
  then show ?thesis by (simp add: client_inv_def)
qed

lemma keyed_assign:
  "keyed_by_identifier s \<Longrightarrow> plugins s' = map_assign (pluginIdentifier p) p (plugins s) \<Longrightarrow>
   keyed_by_identifier s'"
  using set_assign_subset [of "pluginIdentifier p" p "plugins s"]
  by (auto simp: keyed_by_identifier_def list_all_iff)

lemma keyed_erase:
  "keyed_by_identifier s \<Longrightarrow> plugins s' = map_erase k (plugins s) \<Longrightarrow> keyed_by_identifier s'"
  using set_erase_subset [of k "plugins s"]
  by (auto simp: keyed_by_identifier_def list_all_iff)

lemma inv_assign_plugin:
  assumes "client_inv s"
    and "plugins s' = map_assign (pluginIdentifier p) p (plugins s)"
    and "connections s' = connections s"
  shows "client_inv s'"
proof -
  have "keyed_by_identifier s'"
    using assms(1,2) by (auto simp: client_inv_iff elim: keyed_assign)
  moreover have "std_map (plugins s')"
    using assms(1,2) by (simp add: client_inv_iff std_map_assign)
  moreover have "set (map fst (connections s')) \<subseteq> set (map fst (plugins s'))"
    using assms(1) unfolding assms(2,3) keys_assign client_inv_iff by blast
  moreover have "std_map (connections s')"
    using assms(1,3) by (simp add: client_inv_iff)
  ultimately show ?thesis
    unfolding client_inv_iff by blast
qed

lemma inv_erase_plugin:
  assumes "client_inv s" and "pluginIdentifier p \<notin> set (map fst (connections s))"
    and "plugins s' = map_erase (pluginIdentifier p) (plugins s)"
    and "connections s' = connections s"
  shows "client_inv s'"
proof -
  have "keyed_by_identifier s'"
    using assms(1,3) by (auto simp: client_inv_iff elim: keyed_erase)
  moreover have "std_map (plugins s')"
    using assms(1,3) by (simp add: client_inv_iff std_map_erase)
  moreover have "set (map fst (connections s')) \<subseteq> set (map fst (plugins s'))"
    using assms(1,2) unfolding assms(3,4) keys_erase client_inv_iff by blast
  moreover have "std_map (connections s')"
    using assms(1,4) by (simp add: client_inv_iff)
  ultimately show ?thesis
    unfolding client_inv_iff by blast
qed

lemma inv_addPlugin_lambda:
  assumes "client_inv s"
  shows "client_inv (snd (addPlugin_lambda crash p s))"
proof -
  let ?s2 = "emit (StepStart (''Add plugin '' @ pluginIdentifier p))
               (emit (Log (''FlipperClient::addPlugin '' @ pluginIdentifier p)) s)"
  let ?s3 = "?s2\<lparr>plugins := map_assign (pluginIdentifier p) p (plugins ?s2)\<rparr>"
  let ?s4 = "emit (StepComplete (''Add plugin '' @ pluginIdentifier p)) ?s3"
  have inv2: "client_inv ?s2" using assms by simp
  have "client_inv ?s3"
    using inv2 by (rule inv_assign_plugin) simp_all
  then have inv4: "client_inv ?s4" by simp
  then have inv5: "client_inv (snd (refreshPlugins crash ?s4))"
    by (rule inv_refreshPlugins)
  show ?thesis
  proof (cases "map_find (pluginIdentifier p) (plugins ?s2) \<noteq> None")
    case True
    then have "snd (addPlugin_lambda crash p s) = ?s2"
      unfolding addPlugin_lambda_def Let_def by (simp only: simp_thms if_True snd_conv)
    with inv2 show ?thesis by (simp only:)
  next
    case False
    note fresh = this
    show ?thesis
    proof (cases "connected ?s4")
      case True
      with fresh have "addPlugin_lambda crash p s = refreshPlugins crash ?s4"
        unfolding addPlugin_lambda_def Let_def by (simp only: simp_thms if_True if_False)
      with inv5 show ?thesis by (simp only:)
    next
      case False
      with fresh have "snd (addPlugin_lambda crash p s) = ?s4"
        unfolding addPlugin_lambda_def Let_def by (simp only: simp_thms if_False snd_conv)
      with inv4 show ?thesis by (simp only:)
    qed
  qed
qed

lemma inv_removePlugin_lambda:
  assumes "client_inv s"
  shows "client_inv (snd (removePlugin_lambda crash p s))"
proof -
  let ?s1 = "emit (Log (''FlipperClient::removePlugin '' @ pluginIdentifier p)) s"
  have inv1: "client_inv ?s1" using assms by simp
  obtain r s2 where d: "disconnect p ?s1 = (r, s2)" by (cases "disconnect p ?s1")
  then have s2: "s2 = snd (disconnect p ?s1)" by simp
  have inv2: "client_inv s2" unfolding s2 using inv1 by (rule inv_disconnect)
  let ?s3 = "s2\<lparr>plugins := map_erase (pluginIdentifier p) (plugins s2)\<rparr>"
  have "pluginIdentifier p \<notin> set (map fst (connections s2))"
    unfolding s2 disconnect_fields keys_erase by simp
  with inv2 have inv3: "client_inv ?s3"
    by (rule inv_erase_plugin) simp_all
  then have inv4: "client_inv (snd (refreshPlugins crash ?s3))"
    by (rule inv_refreshPlugins)
  show ?thesis
  proof (cases "map_find (pluginIdentifier p) (plugins ?s1) = None")
    case True
    then have "snd (removePlugin_lambda crash p s) = ?s1"
      unfolding removePlugin_lambda_def Let_def by (simp only: simp_thms if_True snd_conv)
    with inv1 show ?thesis by (simp only:)
  next
    case False
    note found = this
    show ?thesis
    proof (cases r)
      case Returns
      show ?thesis
      proof (cases "connected ?s3")
        case True
        with found Returns have "removePlugin_lambda crash p s = refreshPlugins crash ?s3"
          unfolding removePlugin_lambda_def Let_def d
          by (simp only: simp_thms if_True if_False outcome.case prod.case)
        with inv4 show ?thesis by (simp only:)
      next
        case False
        with found Returns have "snd (removePlugin_lambda crash p s) = ?s3"
          unfolding removePlugin_lambda_def Let_def d
          by (simp only: simp_thms if_False outcome.case prod.case snd_conv)
        with inv3 show ?thesis by (simp only:)
      qed
    next
      case (Throws e)
      with found have "snd (removePlugin_lambda crash p s) = s2"
        unfolding removePlugin_lambda_def Let_def d
        by (simp only: simp_thms if_False outcome.case prod.case snd_conv)
      with inv2 show ?thesis by (simp only:)
    next
      case NullDeref
      with found have "snd (removePlugin_lambda crash p s) = s2"
        unfolding removePlugin_lambda_def Let_def d
        by (simp only: simp_thms if_False outcome.case prod.case snd_conv)
      with inv2 show ?thesis by (simp only:)
    qed
  qed
qed

lemma inv_onConnected_lambda:
  assumes "client_inv s"
  shows "client_inv (snd (onConnected_lambda s))"
proof -
  let ?s2 = "(emit (Log ''FlipperClient::onConnected'') s)\<lparr>connected := True\<rparr>"
  let ?s3 = "emit (Stdout ''Activating Background Plugins...'') ?s2"
  have "client_inv ?s3 = client_inv s"
    by (rule client_inv_cong) simp_all
  with assms have "client_inv (snd (startBackgroundPlugins_loop (plugins ?s3) ?s3))"
    by (intro inv_startBackgroundPlugins_loop) simp_all
  then show ?thesis
    by (simp add: onConnected_lambda_def startBackgroundPlugins_def Let_def)
qed

lemma inv_onDisconnected_lambda:
  assumes "client_inv s"
  shows "client_inv (snd (onDisconnected_lambda s))"
proof -
  let ?s3 = "(emit (StepStart ''Trigger onDisconnected callbacks'')
               (emit (Log ''FlipperClient::onDisconnected'') s))\<lparr>connected := False\<rparr>"
  have "client_inv ?s3"
    using assms by (simp add: client_inv_iff keyed_by_identifier_def)
  then have "client_inv (snd (onDisconnected_loop (plugins ?s3) ?s3))"
    by (rule inv_onDisconnected_loop)
  then show ?thesis
    by (cases "onDisconnected_loop (plugins ?s3) ?s3")
       (auto simp: onDisconnected_lambda_def Let_def split: outcome.splits)
qed

lemma inv_responder:
  "client_inv s \<Longrightarrow> client_inv (snd (responder_success r d s))"
  "client_inv s \<Longrightarrow> client_inv (snd (responder_error r d s))"
  by (simp_all add: responder_success_def responder_error_def split: option.splits)

lemma inv_init_branch:
  assumes "client_inv s"
  shows "client_inv (snd (init_branch method params s))"
proof -
  have "client_inv (snd (connect (pluginIdentifier p) p s))"
    if "map_find ident (plugins s) = Some p" for ident p
  proof -
    from that have "(ident, p) \<in> set (plugins s)" by (rule map_find_Some)
    with assms have "pluginIdentifier p = ident" "ident \<in> set (map fst (plugins s))"
      by (force simp: client_inv_iff keyed_by_identifier_def list_all_iff)+
    with assms show ?thesis by (simp add: inv_connect)
  qed
  with assms show ?thesis
    by (auto simp: init_branch_def split: sum.splits option.splits)
qed

lemma inv_deinit_branch:
  "client_inv s \<Longrightarrow> client_inv (snd (deinit_branch method params s))"
  by (auto simp: deinit_branch_def inv_disconnect split: sum.splits option.splits)

lemma inv_execute_branch:
  "client_inv s \<Longrightarrow> client_inv (snd (execute_branch method params responder s))"
  by (auto simp: execute_branch_def connection_call_def split: sum.splits option.splits)

lemma inv_onMessageReceived_lambda:
  assumes "client_inv s"
  shows "client_inv (snd (onMessageReceived_lambda message s))"
  using assms inv_init_branch [OF assms] inv_deinit_branch [OF assms]
    inv_execute_branch [OF assms] inv_responder [OF assms]
  by (auto simp: onMessageReceived_lambda_def getPlugins_branch_def unknown_method_def Let_def
      split: sum.splits)

lemma reachable_inv: "reachable s \<Longrightarrow> client_inv s"
proof (induction rule: reachable.induct)
  case reachable_new
  show ?case
    by (simp add: client_inv_def new_client_def std_map_def keyed_by_identifier_def
        identifiers_unique_def connection_implies_plugin_def)
next
  case (reachable_addPlugin s crash p)
  then show ?case
    unfolding addPlugin_def by (intro inv_performAndReportError inv_addPlugin_lambda)
next
  case (reachable_removePlugin s crash p)
  then show ?case
    unfolding removePlugin_def by (intro inv_performAndReportError inv_removePlugin_lambda)
next
  case (reachable_onConnected s crash)
  then show ?case
    unfolding onConnected_def by (intro inv_performAndReportError inv_onConnected_lambda)
next
  case (reachable_onDisconnected s crash)
  then show ?case
    unfolding onDisconnected_def by (intro inv_performAndReportError inv_onDisconnected_lambda)
next
  case (reachable_onMessageReceived s crash message)
  then show ?case
    unfolding onMessageReceived_def
    by (intro inv_performAndReportError inv_onMessageReceived_lambda)
qed

text \<open>
  Claim C5. Each of the five public operations, \<open>addPlugin\<close>, \<open>removePlugin\<close>,
  \<open>onConnected\<close>, \<open>onDisconnected\<close> and \<open>onMessageReceived\<close>, started in a state where
  the invariant holds, leaves a state where it holds, whatever its arguments, whether or
  not it fails inside, and in both builds of the error wrapper. The invariant
  \<open>client_inv\<close> says that no two entries of the registry have the same plugin
  identifier (\<open>identifiers_unique\<close>) and that the identifier of every entry of the
  connection table is that of a registered plugin (\<open>connection_implies_plugin\<close>);
  with them it carries what makes the two inductive: both tables are maps in key order
  and every plugin is registered under its own identifier.
\<close>

theorem public_operations_preserve_invariant:
  assumes "client_inv s"
  shows "client_inv (snd (addPlugin crash p s)) \<and>
         client_inv (snd (removePlugin crash p s)) \<and>
         client_inv (snd (onConnected crash s)) \<and>
         client_inv (snd (onDisconnected crash s)) \<and>
         client_inv (snd (onMessageReceived crash message s))"
  unfolding addPlugin_def removePlugin_def onConnected_def onDisconnected_def
    onMessageReceived_def
  using assms
  by (intro conjI inv_performAndReportError inv_addPlugin_lambda inv_removePlugin_lambda
      inv_onConnected_lambda inv_onDisconnected_lambda inv_onMessageReceived_lambda)

theorem public_operations_preserve_invariant_witness:
  "client_inv (example_client [example_plugin ''a'' True Completes] True) \<and>
   client_inv (snd (addPlugin False (example_plugin ''b'' False Completes)
     (example_client [example_plugin ''a'' True Completes] True))) \<and>
   client_inv (snd (removePlugin False (example_plugin ''a'' True Completes)
     (example_client [example_plugin ''a'' True Completes] True))) \<and>
   client_inv (snd (onConnected False
     (example_client [example_plugin ''a'' True Completes] True))) \<and>
   client_inv (snd (onDisconnected False
     (example_client [example_plugin ''a'' True Completes] True))) \<and>
   client_inv (snd (onMessageReceived False (example_message ''init'' ''plugin'' ''a'')
     (example_client [example_plugin ''a'' True Completes] True)))"
proof -
  have h: "client_inv (example_client [example_plugin ''a'' True Completes] True)"
    by (simp add: client_inv_def example_client_def example_plugin_def new_client_def
        std_map_def keyed_by_identifier_def identifiers_unique_def
        connection_implies_plugin_def)
  show ?thesis
    using h public_operations_preserve_invariant [OF h, of False
        "example_plugin ''b'' False Completes" "example_message ''init'' ''plugin'' ''a''"]
      public_operations_preserve_invariant [OF h, of False
        "example_plugin ''a'' True Completes" "example_message ''init'' ''plugin'' ''a''"]
    by simp
qed

section \<open>Registering a plugin\<close>

lemma performAndReportError_Returns:
  "func s = (Returns, s') \<Longrightarrow> performAndReportError crash func s = (Returns, s')"
  by (simp add: performAndReportError_def)

lemma refreshPlugins_eq:
  "refreshPlugins crash s =
     (Returns, emit (SendMessage (OBJECT [(''method'', STRING ''refreshPlugins'')])) s)"
  unfolding refreshPlugins_def by (rule performAndReportError_Returns) simp

lemma filter_distinct_one:
  "distinct (map f xs) \<Longrightarrow> y \<in> set (map f xs) \<Longrightarrow> length (filter (\<lambda>x. f x = y) xs) = 1"
proof (induction xs)
  case Nil
  then show ?case by simp
next
  case (Cons x xs)
  show ?case
  proof (cases "f x = y")
    case True
    have "f x \<notin> f ` set xs" using Cons.prems(1) by simp
    then have "\<forall>z \<in> set xs. f z \<noteq> y" using True by blast
    then have "filter (\<lambda>x. f x = y) xs = []"
      by (simp add: filter_empty_conv)
    with True show ?thesis by simp
  next
    case False
    with Cons show ?thesis by simp
  qed
qed




text \<open>
  Claim C3, as amended. A successful \<open>addPlugin\<close> while the bridge is connected inserts
  the plugin, records the diagnostics step and sends exactly one \<^verbatim>\<open>refreshPlugins\<close>
  notification on the transport. It creates no connection entry and invokes no plugin
  callback, whether or not the plugin runs in the background: the connection table is
  as before and the four events listed are all that happens.
\<close>

theorem addPlugin_connected:
  assumes "connected s" and "map_find (pluginIdentifier p) (plugins s) = None"
  shows "addPlugin crash p s =
     (Returns,
      s\<lparr>plugins := map_assign (pluginIdentifier p) p (plugins s),
        trace := trace s @
          [Log (''FlipperClient::addPlugin '' @ pluginIdentifier p),
           StepStart (''Add plugin '' @ pluginIdentifier p),
           StepComplete (''Add plugin '' @ pluginIdentifier p),
           SendMessage (OBJECT [(''method'', STRING ''refreshPlugins'')])]\<rparr>)"
proof -
  have "addPlugin_lambda crash p s = (Returns,
      s\<lparr>plugins := map_assign (pluginIdentifier p) p (plugins s),
        trace := trace s @
          [Log (''FlipperClient::addPlugin '' @ pluginIdentifier p),
           StepStart (''Add plugin '' @ pluginIdentifier p),
           StepComplete (''Add plugin '' @ pluginIdentifier p),
           SendMessage (OBJECT [(''method'', STRING ''refreshPlugins'')])]\<rparr>)"
    using assms by (simp add: addPlugin_lambda_def Let_def refreshPlugins_eq emit_def)
  then show ?thesis
    unfolding addPlugin_def by (rule performAndReportError_Returns)
qed

theorem addPlugin_connected_witness:
  "connected (example_client [] True) \<and>
   map_find (pluginIdentifier (example_plugin ''b'' True Completes))
     (plugins (example_client [] True)) = None \<and>
   addPlugin False (example_plugin ''b'' True Completes) (example_client [] True) =
     (Returns,
      \<lparr>plugins = [(''b'', example_plugin ''b'' True Completes)], connections = [],
       connected = True,
       trace = [Log ''FlipperClient::addPlugin b'', StepStart ''Add plugin b'',
         StepComplete ''Add plugin b'',
         SendMessage (OBJECT [(''method'', STRING ''refreshPlugins'')])],
       allocated = 0\<rparr>)"
proof -
  have c: "connected (example_client [] True)"
    by (simp add: example_client_def new_client_def)
  have f: "map_find (pluginIdentifier (example_plugin ''b'' True Completes))
     (plugins (example_client [] True)) = None"
    by (simp add: example_client_def new_client_def map_find_def)
  show ?thesis
    using c f addPlugin_connected [OF c f, of False]
    by (simp add: example_client_def example_plugin_def new_client_def)
qed

text \<open>
  The claim as stated fails: a background plugin added to a new client after
  \<open>onConnected\<close> gets no connection entry and its \<^verbatim>\<open>didConnect\<close> is not invoked.
\<close>

theorem addPlugin_connected_counterexample:
  "runInBackground (example_plugin ''b'' True Completes) \<and>
   connected (snd (onConnected False new_client)) \<and>
   addPlugin False (example_plugin ''b'' True Completes) (snd (onConnected False new_client)) =
     (Returns,
      \<lparr>plugins = [(''b'', example_plugin ''b'' True Completes)],
       connections = [],
       connected = True,
       trace = [Log ''FlipperClient::onConnected'', Stdout ''Activating Background Plugins...'',
         Log ''FlipperClient::addPlugin b'', StepStart ''Add plugin b'',
         StepComplete ''Add plugin b'',
         SendMessage (OBJECT [(''method'', STRING ''refreshPlugins'')])],
       allocated = 0\<rparr>)"
  by (simp add: eval_defs addPlugin_def addPlugin_lambda_def refreshPlugins_def)

section \<open>Dispatching a message\<close>

lemma make_responder_eq:
  "map_of kvs ''id'' = map_option INT64 r \<Longrightarrow> make_responder (OBJECT kvs) = Inr r"
  by (cases r) (simp_all add: make_responder_def)

text \<open>
  Claim C6. An \<^verbatim>\<open>execute\<close> message (with no \<^verbatim>\<open>id\<close> or an integer one) whose
  \<^verbatim>\<open>params.api\<close> names no entry of the connection table fails: the dispatch function
  throws \<^verbatim>\<open>std::out_of_range\<close> with the text "connection <api> not found for method
  execute" (the spec's \<open>ConnectionNotFound\<close>) from the state it started in, so no plugin
  callback was invoked; the entry point then reports that failure and nothing else.
\<close>

theorem execute_without_connection:
  assumes "map_of kvs ''method'' = Some (STRING ''execute'')"
    and "map_of kvs ''id'' = map_option INT64 responder"
    and "map_of kvs ''params'' = Some (OBJECT ps)"
    and "map_of ps ''api'' = Some (STRING api)"
    and "map_find api (connections s) = None"
  shows "onMessageReceived_lambda (OBJECT kvs) s =
           (Throws (out_of_range (''connection '' @ api @ '' not found for method execute'')), s) \<and>
         onMessageReceived False (OBJECT kvs) s =
           (Returns,
            emit (if connected s
                  then SendMessage (error_message
                         (''connection '' @ api @ '' not found for method execute''))
                  else Log (''Error: '' @ ''connection '' @ api @
                         '' not found for method execute'')) s)"
proof -
  have l: "onMessageReceived_lambda (OBJECT kvs) s =
      (Throws (out_of_range (''connection '' @ api @ '' not found for method execute'')), s)"
    using assms
    by (simp add: onMessageReceived_lambda_def make_responder_eq execute_branch_def
        connection_not_found_def)
  then show ?thesis
    by (simp add: onMessageReceived_def performAndReportError_def)
qed

theorem execute_without_connection_witness:
  "map_find ''a'' (connections (example_client [example_plugin ''a'' False Completes] True)) = None \<and>
   onMessageReceived_lambda (example_message ''execute'' ''api'' ''a'')
     (example_client [example_plugin ''a'' False Completes] True) =
     (Throws (out_of_range ''connection a not found for method execute''),
      example_client [example_plugin ''a'' False Completes] True) \<and>
   trace (snd (onMessageReceived False (example_message ''execute'' ''api'' ''a'')
     (example_client [example_plugin ''a'' False Completes] True))) =
     [SendMessage (error_message ''connection a not found for method execute'')]"
proof -
  have f: "map_find ''a''
      (connections (example_client [example_plugin ''a'' False Completes] True)) = None"
    by (simp add: example_client_def new_client_def map_find_def)
  show ?thesis
    using f execute_without_connection [where responder = None and api = "''a''"
        and ps = "[(''api'', STRING ''a'')]"
        and kvs = "[(''method'', STRING ''execute''), (''params'', OBJECT [(''api'', STRING ''a'')])]",
        OF _ _ _ _ f]
    by (simp add: example_message_def example_client_def new_client_def emit_def)
qed

text \<open>
  Claim C7. A \<^verbatim>\<open>getPlugins\<close> message carrying the integer id \<open>i\<close> returns normally
  with one effect, a success response addressed to \<open>i\<close> whose payload lists, without
  repetition, exactly the identifiers of the registered plugins. The registry, the
  connection table and the connected flag are as before.
\<close>

theorem getPlugins_response:
  assumes "client_inv s"
    and "map_of kvs ''method'' = Some (STRING ''getPlugins'')"
    and "map_of kvs ''id'' = Some (INT64 i)"
  shows "\<exists>ids. onMessageReceived crash (OBJECT kvs) s =
           (Returns, emit (ResponderSuccess i (OBJECT [(''plugins'', ARRAY ids)])) s) \<and>
         distinct ids \<and>
         set ids = (\<lambda>kp. STRING (pluginIdentifier (snd kp))) ` set (plugins s)"
proof -
  let ?ids = "map (\<lambda>elem. STRING (fst elem)) (plugins s)"
  from assms(1) have keyed: "keyed_by_identifier s" and st: "std_map (plugins s)"
    by (simp_all add: client_inv_def)
  have r: "make_responder (OBJECT kvs) = Inr (Some i)"
    using assms(3) make_responder_eq [of kvs "Some i"] by simp
  have "onMessageReceived_lambda (OBJECT kvs) s =
      (Returns, emit (ResponderSuccess i (OBJECT [(''plugins'', ARRAY ?ids)])) s)"
    using assms(2) r
    by (simp add: onMessageReceived_lambda_def getPlugins_branch_def responder_success_def
        split: option.splits)
  then have "onMessageReceived crash (OBJECT kvs) s =
      (Returns, emit (ResponderSuccess i (OBJECT [(''plugins'', ARRAY ?ids)])) s)"
    unfolding onMessageReceived_def by (rule performAndReportError_Returns)
  moreover have "distinct (map fst (plugins s))"
    using st by (simp add: std_map_def strict_sorted_iff)
  then have "distinct ?ids"
    by (simp add: distinct_map inj_on_def comp_def)
  moreover have "set ?ids = (\<lambda>kp. STRING (pluginIdentifier (snd kp))) ` set (plugins s)"
    using keyed by (auto simp: keyed_by_identifier_def list_all_iff)
  ultimately show ?thesis by blast
qed

theorem getPlugins_response_witness:
  "client_inv (example_client
      [example_plugin ''a'' False Completes, example_plugin ''b'' True Completes] True) \<and>
   (\<exists>ids. onMessageReceived False (OBJECT [(''method'', STRING ''getPlugins''), (''id'', INT64 7)])
       (example_client
         [example_plugin ''a'' False Completes, example_plugin ''b'' True Completes] True) =
       (Returns, emit (ResponderSuccess 7 (OBJECT [(''plugins'', ARRAY ids)]))
         (example_client
           [example_plugin ''a'' False Completes, example_plugin ''b'' True Completes] True)) \<and>
      set ids = {STRING ''a'', STRING ''b''})"
proof -
  have h: "client_inv (example_client
      [example_plugin ''a'' False Completes, example_plugin ''b'' True Completes] True)"
    by (simp add: client_inv_def example_client_def example_plugin_def new_client_def
        std_map_def keyed_by_identifier_def identifiers_unique_def
        connection_implies_plugin_def)
  have "(\<lambda>kp. STRING (pluginIdentifier (snd kp))) ` set (plugins (example_client
      [example_plugin ''a'' False Completes, example_plugin ''b'' True Completes] True)) =
      {STRING ''a'', STRING ''b''}"
    by (simp add: example_client_def example_plugin_def new_client_def)
  with h getPlugins_response [OF h, of "[(''method'', STRING ''getPlugins''), (''id'', INT64 7)]" 7 False]
  show ?thesis by auto
qed

text \<open>
  Claim C8 fails on the code. A message with an unknown method and no \<^verbatim>\<open>id\<close> has no
  responder, and the last statement of \<^verbatim>\<open>onMessageReceived\<close> calls \<^verbatim>\<open>error\<close> through
  the empty pointer: the entry point ends in the null dereference, in both builds.
\<close>

theorem unknown_method_without_id:
  "onMessageReceived crash (OBJECT [(''method'', STRING ''unknownThing'')]) s = (NullDeref, s)"
  by (simp add: onMessageReceived_def performAndReportError_def onMessageReceived_lambda_def
      make_responder_def unknown_method_def responder_error_def)

lemma example_initialised_eq:
  "example_initialised =
     \<lparr>plugins = [(''a'', example_plugin ''a'' False Completes)],
      connections = [(''a'', \<lparr>handle = 0, name = ''a'', receiver = Completes\<rparr>)],
      connected = False,
      trace = [Log ''FlipperClient::addPlugin a'', StepStart ''Add plugin a'',
        StepComplete ''Add plugin a'', DidConnect ''a'' 0],
      allocated = 1\<rparr>"
  by (simp add: example_initialised_def example_message_def
      example_plugin_def new_client_def addPlugin_def addPlugin_lambda_def
      onMessageReceived_def performAndReportError_def
      onMessageReceived_lambda_def make_responder_def init_branch_def map_find_def
      connect_def callback_def emit_def)

text \<open>
  Claim C10. For a registered plugin that does not run in the background, a \<^verbatim>\<open>deinit\<close>
  message (with no \<^verbatim>\<open>id\<close> or an integer one) processed right after the same message
  returns normally and leaves the whole state as it found it, the trace included: no
  plugin callback is invoked and nothing is sent or logged. The reason is in
  \<open>disconnect\<close>, which does nothing when the plugin has no connection entry.
\<close>

theorem deinit_twice:
  assumes "map_of kvs ''method'' = Some (STRING ''deinit'')"
    and "map_of kvs ''id'' = map_option INT64 responder"
    and "map_of kvs ''params'' = Some (OBJECT ps)"
    and "map_of ps ''plugin'' = Some (STRING ident)"
    and "map_find ident (plugins s) = Some p"
    and "\<not> runInBackground p"
  shows "onMessageReceived crash (OBJECT kvs) (snd (onMessageReceived crash (OBJECT kvs) s)) =
           (Returns, snd (onMessageReceived crash (OBJECT kvs) s)) \<and>
         (map_find (pluginIdentifier p) (connections s) = None \<longrightarrow>
            disconnect p s = (Returns, s))"
proof -
  let ?s1 = "snd (onMessageReceived crash (OBJECT kvs) s)"
  have l: "onMessageReceived_lambda (OBJECT kvs) t = disconnect p t"
    if "plugins t = plugins s" for t
    using assms that
    by (simp add: onMessageReceived_lambda_def make_responder_eq deinit_branch_def)
  have p1: "plugins ?s1 = plugins s"
    by (simp add: onMessageReceived_def performAndReportError_fields l disconnect_fields)
  have "connections ?s1 = map_erase (pluginIdentifier p) (connections s)"
    by (simp add: onMessageReceived_def performAndReportError_fields l disconnect_fields)
  then have "map_find (pluginIdentifier p) (connections ?s1) = None"
    by (simp add: map_find_erase)
  then have "disconnect p ?s1 = (Returns, ?s1)"
    by (simp add: disconnect_def)
  then have "onMessageReceived_lambda (OBJECT kvs) ?s1 = (Returns, ?s1)"
    using l [OF p1] by simp
  then have "onMessageReceived crash (OBJECT kvs) ?s1 = (Returns, ?s1)"
    unfolding onMessageReceived_def by (rule performAndReportError_Returns)
  then show ?thesis
    by (simp add: disconnect_def)
qed

theorem deinit_twice_witness:
  "connections example_initialised =
     [(''a'', \<lparr>handle = 0, name = ''a'', receiver = Completes\<rparr>)] \<and>
   snd (onMessageReceived False (example_message ''deinit'' ''plugin'' ''a'') example_initialised) =
     example_initialised\<lparr>connections := [],
       trace := [Log ''FlipperClient::addPlugin a'', StepStart ''Add plugin a'',
         StepComplete ''Add plugin a'', DidConnect ''a'' 0, DidDisconnect ''a'']\<rparr> \<and>
   onMessageReceived False (example_message ''deinit'' ''plugin'' ''a'')
     (snd (onMessageReceived False (example_message ''deinit'' ''plugin'' ''a'')
       example_initialised)) =
     (Returns, example_initialised\<lparr>connections := [],
       trace := [Log ''FlipperClient::addPlugin a'', StepStart ''Add plugin a'',
         StepComplete ''Add plugin a'', DidConnect ''a'' 0, DidDisconnect ''a'']\<rparr>)"
proof -
  have m: "example_message ''deinit'' ''plugin'' ''a'' =
      OBJECT [(''method'', STRING ''deinit''), (''params'', OBJECT [(''plugin'', STRING ''a'')])]"
    by (simp add: example_message_def)
  have c: "connections example_initialised =
      [(''a'', \<lparr>handle = 0, name = ''a'', receiver = Completes\<rparr>)]"
    by (simp add: example_initialised_eq)
  have s1: "snd (onMessageReceived False
        (OBJECT [(''method'', STRING ''deinit''), (''params'', OBJECT [(''plugin'', STRING ''a'')])])
        example_initialised) =
     example_initialised\<lparr>connections := [],
       trace := [Log ''FlipperClient::addPlugin a'', StepStart ''Add plugin a'',
         StepComplete ''Add plugin a'', DidConnect ''a'' 0, DidDisconnect ''a'']\<rparr>"
    by (simp add: example_initialised_eq example_plugin_def
        onMessageReceived_def performAndReportError_def
        onMessageReceived_lambda_def make_responder_def deinit_branch_def map_find_def
        disconnect_def callback_def emit_def map_erase_def)
  have f: "map_find ''a'' (plugins example_initialised) = Some (example_plugin ''a'' False Completes)"
    by (simp add: example_initialised_eq map_find_def)
  have b: "\<not> runInBackground (example_plugin ''a'' False Completes)"
    by (simp add: example_plugin_def)
  have "onMessageReceived False
        (OBJECT [(''method'', STRING ''deinit''), (''params'', OBJECT [(''plugin'', STRING ''a'')])])
        (snd (onMessageReceived False
          (OBJECT [(''method'', STRING ''deinit''), (''params'', OBJECT [(''plugin'', STRING ''a'')])])
          example_initialised)) =
      (Returns, snd (onMessageReceived False
          (OBJECT [(''method'', STRING ''deinit''), (''params'', OBJECT [(''plugin'', STRING ''a'')])])
          example_initialised))"
    using deinit_twice [where responder = None and ident = "''a''"
        and ps = "[(''plugin'', STRING ''a'')]" and crash = False
        and kvs = "[(''method'', STRING ''deinit''), (''params'', OBJECT [(''plugin'', STRING ''a'')])]",
        OF _ _ _ _ f b]
    by simp
  then show ?thesis
    unfolding m s1 using c by (simp only: simp_thms)
qed

section \<open>Connecting and disconnecting\<close>

lemma calls_append [simp]:
  "didConnect_calls k (t @ u) = didConnect_calls k t + didConnect_calls k u"
  "didDisconnect_calls k (t @ u) = didDisconnect_calls k t + didDisconnect_calls k u"
  by (simp_all add: didConnect_calls_def didDisconnect_calls_def)

lemma calls_single [simp]:
  "didConnect_calls k [DidConnect i h] = (if i = k then 1 else 0)"
  "didConnect_calls k [Log x] = 0" "didConnect_calls k [Stdout x] = 0"
  "didConnect_calls k [StepStart x] = 0" "didConnect_calls k [StepComplete x] = 0"
  "didDisconnect_calls k [DidDisconnect i] = (if i = k then 1 else 0)"
  "didDisconnect_calls k [Log x] = 0" "didDisconnect_calls k [Stdout x] = 0"
  "didDisconnect_calls k [StepStart x] = 0" "didDisconnect_calls k [StepComplete x] = 0"
  by (simp_all add: didConnect_calls_def didDisconnect_calls_def)

lemma calls_Cons [simp]:
  "didConnect_calls k (e # e' # t) = didConnect_calls k [e] + didConnect_calls k (e' # t)"
  "didDisconnect_calls k (e # e' # t) = didDisconnect_calls k [e] + didDisconnect_calls k (e' # t)"
  by (simp_all add: didConnect_calls_def didDisconnect_calls_def)

lemma connect_trace:
  "trace (snd (connect k p s)) = trace s @ [DidConnect (pluginIdentifier p) (allocated s)]"
  by (simp add: connect_def Let_def)

lemma disconnect_trace:
  "trace (snd (disconnect p s)) =
     trace s @ (if pluginIdentifier p \<in> set (map fst (connections s))
                then [DidDisconnect (pluginIdentifier p)] else [])"
proof (cases "map_find (pluginIdentifier p) (connections s)")
  case None
  then have "pluginIdentifier p \<notin> set (map fst (connections s))"
    by (simp add: map_find_None)
  with None show ?thesis by (simp add: disconnect_def)
next
  case (Some c)
  then have "pluginIdentifier p \<in> set (map fst (connections s))"
    using map_find_None [of "pluginIdentifier p" "connections s"] by simp
  with Some show ?thesis by (simp add: disconnect_def)
qed

lemma onConnected_lambda_eq:
  "onConnected_lambda s =
     startBackgroundPlugins_loop (plugins s)
       (emit (Stdout ''Activating Background Plugins...'')
          ((emit (Log ''FlipperClient::onConnected'') s)\<lparr>connected := True\<rparr>))"
  by (simp add: onConnected_lambda_def startBackgroundPlugins_def Let_def)

lemma connect_allocated: "allocated (snd (connect k p s)) = Suc (allocated s)"
  by (simp add: connect_def Let_def)

lemma disconnect_allocated: "allocated (snd (disconnect p s)) = allocated s"
  by (simp add: disconnect_def split: option.splits)

lemma performAndReportError_didConnect_calls:
  "didConnect_calls k (trace (snd (performAndReportError crash func s))) =
     didConnect_calls k (trace (snd (func s)))"
  by (cases "func s")
     (auto simp: performAndReportError_def didConnect_calls_def split: outcome.splits)

lemma calls_Nil [simp]: "didConnect_calls k [] = 0" "didDisconnect_calls k [] = 0"
  by (simp_all add: didConnect_calls_def didDisconnect_calls_def)

lemma connect_outcome: "fst (connect k p s) = callback (didConnect p)"
  by (simp add: connect_def Let_def)

lemma disconnect_outcome:
  "fst (disconnect p s) =
     (if map_find (pluginIdentifier p) (connections s) = None then Returns
      else callback (didDisconnect p))"
  by (simp add: disconnect_def split: option.splits)

lemma callback_Returns: "callback b = Returns \<longleftrightarrow> b = Completes"
  by (cases b) (simp_all add: callback_def)

lemma startBackgroundPlugins_loop_Cons:
  "snd (startBackgroundPlugins_loop (it # rest) s) =
     (if runInBackground (snd it) then
        (if didConnect (snd it) = Completes
         then snd (startBackgroundPlugins_loop rest
                (snd (connect (fst it) (snd it) (emit (Stdout (fst it)) s))))
         else snd (connect (fst it) (snd it) (emit (Stdout (fst it)) s)))
      else snd (startBackgroundPlugins_loop rest (emit (Stdout (fst it)) s)))"
proof -
  obtain r s2 where c: "connect (fst it) (snd it) (emit (Stdout (fst it)) s) = (r, s2)"
    by (cases "connect (fst it) (snd it) (emit (Stdout (fst it)) s)")
  then have "r = callback (didConnect (snd it))"
    using connect_outcome [of "fst it" "snd it" "emit (Stdout (fst it)) s"] by simp
  with c show ?thesis
    by (cases "didConnect (snd it)") (simp_all add: Let_def callback_def)
qed

lemma onDisconnected_loop_Cons:
  "snd (onDisconnected_loop (iter # rest) s) =
     (if fst (disconnect (snd iter) s) = Returns
      then snd (onDisconnected_loop rest (snd (disconnect (snd iter) s)))
      else snd (disconnect (snd iter) s))"
  by (cases "disconnect (snd iter) s") (auto split: outcome.splits)

lemma startBackgroundPlugins_loop_other:
  "k \<notin> set (map fst ps) \<Longrightarrow>
   map_find k (connections (snd (startBackgroundPlugins_loop ps s))) = map_find k (connections s)"
proof (induction ps arbitrary: s)
  case Nil
  then show ?case by simp
next
  case (Cons it rest)
  then have k: "k \<noteq> fst it" and r: "k \<notin> set (map fst rest)" by auto
  have c: "map_find k (connections (snd (connect (fst it) (snd it) t))) =
      map_find k (connections t)" for t
    using k by (simp add: connect_fields map_find_assign)
  show ?case
    unfolding startBackgroundPlugins_loop_Cons
    by (simp add: Cons.IH [OF r] c)
qed

lemma startBackgroundPlugins_loop_calls_other:
  "k \<notin> set (map (\<lambda>it. pluginIdentifier (snd it)) ps) \<Longrightarrow>
   didConnect_calls k (trace (snd (startBackgroundPlugins_loop ps s))) =
     didConnect_calls k (trace s)"
proof (induction ps arbitrary: s)
  case Nil
  then show ?case by simp
next
  case (Cons it rest)
  then have k: "pluginIdentifier (snd it) \<noteq> k"
    and r: "k \<notin> set (map (\<lambda>it. pluginIdentifier (snd it)) rest)" by auto
  have c: "didConnect_calls k (trace (snd (connect (fst it) (snd it) (emit (Stdout x) s)))) =
      didConnect_calls k (trace s)" for x
    using k by (simp add: connect_trace)
  show ?case
    unfolding startBackgroundPlugins_loop_Cons
    by (simp add: Cons.IH [OF r] c)
qed

lemma startBackgroundPlugins_loop_allocated:
  "allocated s \<le> allocated (snd (startBackgroundPlugins_loop ps s))"
proof (induction ps arbitrary: s)
  case Nil
  then show ?case by simp
next
  case (Cons it rest)
  have "allocated s \<le> allocated (snd (startBackgroundPlugins_loop rest
      (snd (connect (fst it) (snd it) (emit (Stdout (fst it)) s)))))"
    using Cons.IH [of "snd (connect (fst it) (snd it) (emit (Stdout (fst it)) s))"]
    by (simp add: connect_allocated)
  moreover have "allocated s \<le> allocated (snd (startBackgroundPlugins_loop rest
      (emit (Stdout (fst it)) s)))"
    using Cons.IH [of "emit (Stdout (fst it)) s"] by simp
  ultimately show ?case
    unfolding startBackgroundPlugins_loop_Cons by (simp add: connect_allocated)
qed

lemma startBackgroundPlugins_loop_append:
  "\<forall>it \<in> set pre. runInBackground (snd it) \<longrightarrow> didConnect (snd it) = Completes \<Longrightarrow>
   snd (startBackgroundPlugins_loop (pre @ rest) s) =
     snd (startBackgroundPlugins_loop rest (snd (startBackgroundPlugins_loop pre s)))"
proof (induction pre arbitrary: s)
  case Nil
  then show ?case by simp
next
  case (Cons it pre)
  then have ih: "snd (startBackgroundPlugins_loop (pre @ rest) t) =
      snd (startBackgroundPlugins_loop rest (snd (startBackgroundPlugins_loop pre t)))" for t
    by simp
  from Cons.prems have "runInBackground (snd it) \<longrightarrow> didConnect (snd it) = Completes"
    by simp
  then show ?case
    unfolding append_Cons startBackgroundPlugins_loop_Cons by (simp add: ih)
qed

lemma startBackgroundPlugins_loop_at:
  assumes "runInBackground p" and "k \<notin> set (map fst post)"
    and "pluginIdentifier p \<notin> set (map (\<lambda>it. pluginIdentifier (snd it)) post)"
  shows "map_find k (connections (snd (startBackgroundPlugins_loop ((k, p) # post) s))) =
           Some \<lparr>handle = allocated s, name = k, receiver = handleCall p\<rparr>"
    and "didConnect_calls (pluginIdentifier p)
           (trace (snd (startBackgroundPlugins_loop ((k, p) # post) s))) =
           didConnect_calls (pluginIdentifier p) (trace s) + 1"
proof -
  let ?s2 = "snd (connect k p (emit (Stdout k) s))"
  have f: "map_find k (connections ?s2) =
      Some \<lparr>handle = allocated s, name = k, receiver = handleCall p\<rparr>"
    by (simp add: connect_fields map_find_assign)
  have c: "didConnect_calls (pluginIdentifier p) (trace ?s2) =
      didConnect_calls (pluginIdentifier p) (trace s) + 1"
    by (simp add: connect_trace)
  show "map_find k (connections (snd (startBackgroundPlugins_loop ((k, p) # post) s))) =
           Some \<lparr>handle = allocated s, name = k, receiver = handleCall p\<rparr>"
    unfolding startBackgroundPlugins_loop_Cons
    using assms(1) f by (simp add: startBackgroundPlugins_loop_other [OF assms(2)])
  show "didConnect_calls (pluginIdentifier p)
           (trace (snd (startBackgroundPlugins_loop ((k, p) # post) s))) =
           didConnect_calls (pluginIdentifier p) (trace s) + 1"
    unfolding startBackgroundPlugins_loop_Cons
    using assms(1) c by (simp add: startBackgroundPlugins_loop_calls_other [OF assms(3)])
qed

lemma onDisconnected_loop_other:
  "k \<notin> set (map (\<lambda>it. pluginIdentifier (snd it)) ps) \<Longrightarrow>
   map_find k (connections (snd (onDisconnected_loop ps s))) = map_find k (connections s)"
proof (induction ps arbitrary: s)
  case Nil
  then show ?case by simp
next
  case (Cons iter rest)
  then have k: "k \<noteq> pluginIdentifier (snd iter)"
    and r: "k \<notin> set (map (\<lambda>it. pluginIdentifier (snd it)) rest)" by auto
  have d: "map_find k (connections (snd (disconnect (snd iter) s))) = map_find k (connections s)"
    using k by (simp add: disconnect_fields map_find_erase)
  show ?case
    unfolding onDisconnected_loop_Cons by (simp add: Cons.IH [OF r] d)
qed

lemma onDisconnected_loop_calls_other:
  "k \<notin> set (map (\<lambda>it. pluginIdentifier (snd it)) ps) \<Longrightarrow>
   didDisconnect_calls k (trace (snd (onDisconnected_loop ps s))) =
     didDisconnect_calls k (trace s)"
proof (induction ps arbitrary: s)
  case Nil
  then show ?case by simp
next
  case (Cons iter rest)
  then have k: "k \<noteq> pluginIdentifier (snd iter)"
    and r: "k \<notin> set (map (\<lambda>it. pluginIdentifier (snd it)) rest)" by auto
  have d: "didDisconnect_calls k (trace (snd (disconnect (snd iter) s))) =
      didDisconnect_calls k (trace s)"
    using k by (simp add: disconnect_trace)
  show ?case
    unfolding onDisconnected_loop_Cons by (simp add: Cons.IH [OF r] d)
qed

lemma onDisconnected_loop_gone:
  "map_find k (connections s) = None \<Longrightarrow>
   map_find k (connections (snd (onDisconnected_loop ps s))) = None"
proof (induction ps arbitrary: s)
  case Nil
  then show ?case by simp
next
  case (Cons iter rest)
  have d: "map_find k (connections (snd (disconnect (snd iter) s))) = None"
    using Cons.prems by (simp add: disconnect_fields map_find_erase)
  show ?case
    unfolding onDisconnected_loop_Cons by (simp add: Cons.IH [OF d] d)
qed

lemma onDisconnected_loop_append:
  "\<forall>it \<in> set pre. map_find (pluginIdentifier (snd it)) (connections s) \<noteq> None \<longrightarrow>
      didDisconnect (snd it) = Completes \<Longrightarrow>
   snd (onDisconnected_loop (pre @ rest) s) =
     snd (onDisconnected_loop rest (snd (onDisconnected_loop pre s)))"
proof (induction pre arbitrary: s)
  case Nil
  then show ?case by simp
next
  case (Cons iter pre)
  let ?s1 = "snd (disconnect (snd iter) s)"
  have ret: "fst (disconnect (snd iter) s) = Returns"
    using Cons.prems by (simp add: disconnect_outcome callback_def)
  have "\<forall>it \<in> set pre. map_find (pluginIdentifier (snd it)) (connections ?s1) \<noteq> None \<longrightarrow>
      didDisconnect (snd it) = Completes"
    using Cons.prems by (simp add: disconnect_fields map_find_erase)
  then have "snd (onDisconnected_loop (pre @ rest) ?s1) =
      snd (onDisconnected_loop rest (snd (onDisconnected_loop pre ?s1)))"
    by (rule Cons.IH)
  with ret show ?case
    unfolding append_Cons onDisconnected_loop_Cons by simp
qed

lemma onDisconnected_loop_at:
  assumes "map_find (pluginIdentifier p) (connections s) \<noteq> None"
    and "pluginIdentifier p \<notin> set (map (\<lambda>it. pluginIdentifier (snd it)) post)"
  shows "map_find (pluginIdentifier p)
           (connections (snd (onDisconnected_loop ((k, p) # post) s))) = None"
    and "didDisconnect_calls (pluginIdentifier p)
           (trace (snd (onDisconnected_loop ((k, p) # post) s))) =
           didDisconnect_calls (pluginIdentifier p) (trace s) + 1"
proof -
  let ?s1 = "snd (disconnect p s)"
  have g: "map_find (pluginIdentifier p) (connections ?s1) = None"
    by (simp add: disconnect_fields map_find_erase)
  have "pluginIdentifier p \<in> set (map fst (connections s))"
    using assms(1) map_find_None [of "pluginIdentifier p" "connections s"] by simp
  then have c: "didDisconnect_calls (pluginIdentifier p) (trace ?s1) =
      didDisconnect_calls (pluginIdentifier p) (trace s) + 1"
    by (simp add: disconnect_trace)
  show "map_find (pluginIdentifier p)
           (connections (snd (onDisconnected_loop ((k, p) # post) s))) = None"
    unfolding onDisconnected_loop_Cons
    using g by (simp add: onDisconnected_loop_gone)
  show "didDisconnect_calls (pluginIdentifier p)
           (trace (snd (onDisconnected_loop ((k, p) # post) s))) =
           didDisconnect_calls (pluginIdentifier p) (trace s) + 1"
    unfolding onDisconnected_loop_Cons
    using c by (simp add: onDisconnected_loop_calls_other [OF assms(2)])
qed

lemma performAndReportError_didDisconnect_calls:
  "didDisconnect_calls k (trace (snd (performAndReportError crash func s))) =
     didDisconnect_calls k (trace (snd (func s)))"
  by (cases "func s")
     (auto simp: performAndReportError_def didDisconnect_calls_def split: outcome.splits)

lemma onDisconnected_lambda_snd:
  "connections (snd (onDisconnected_lambda s)) =
     connections (snd (onDisconnected_loop (plugins s)
       ((emit (StepStart ''Trigger onDisconnected callbacks'')
          (emit (Log ''FlipperClient::onDisconnected'') s))\<lparr>connected := False\<rparr>)))"
  "didDisconnect_calls k (trace (snd (onDisconnected_lambda s))) =
     didDisconnect_calls k (trace (snd (onDisconnected_loop (plugins s)
       ((emit (StepStart ''Trigger onDisconnected callbacks'')
          (emit (Log ''FlipperClient::onDisconnected'') s))\<lparr>connected := False\<rparr>))))"
  by (cases "onDisconnected_loop (plugins s)
       ((emit (StepStart ''Trigger onDisconnected callbacks'')
          (emit (Log ''FlipperClient::onDisconnected'') s))\<lparr>connected := False\<rparr>)";
      auto simp: onDisconnected_lambda_def Let_def split: outcome.splits)+

lemma registry_split:
  assumes "client_inv s" and "(k, p) \<in> set (plugins s)"
  obtains pre post where "plugins s = pre @ (k, p) # post"
    and "\<forall>it \<in> set pre. fst it < k \<and> it \<in> set (plugins s)"
    and "pluginIdentifier p = k"
    and "k \<notin> set (map fst post)"
    and "k \<notin> set (map (\<lambda>it. pluginIdentifier (snd it)) pre)"
    and "k \<notin> set (map (\<lambda>it. pluginIdentifier (snd it)) post)"
proof -
  from assms(1) have keyed: "keyed_by_identifier s" and st: "std_map (plugins s)"
    by (simp_all add: client_inv_def)
  from assms(2) obtain pre post where sp: "plugins s = pre @ (k, p) # post"
    by (auto dest: split_list)
  from st have sorted: "sorted_wrt (<) (map fst pre @ k # map fst post)"
    by (simp add: std_map_def sp)
  then have lt: "\<forall>x \<in> set (map fst pre). x < k" and gt: "\<forall>y \<in> set (map fst post). k < y"
    by (auto simp: sorted_wrt_append)
  have ids: "map (\<lambda>it. pluginIdentifier (snd it)) (pre @ (k, p) # post) =
      map fst (pre @ (k, p) # post)"
    using keyed_identifiers [OF keyed] by (simp only: sp)
  then have idp: "pluginIdentifier p = k"
    and ipre: "map (\<lambda>it. pluginIdentifier (snd it)) pre = map fst pre"
    and ipost: "map (\<lambda>it. pluginIdentifier (snd it)) post = map fst post"
    by simp_all
  have "\<forall>it \<in> set pre. fst it < k \<and> it \<in> set (plugins s)"
    using lt sp by simp
  moreover have "k \<notin> set (map fst post)" using gt by auto
  moreover have "k \<notin> set (map fst pre)" using lt by auto
  ultimately show ?thesis
    using that [OF sp] idp ipre ipost by simp
qed

lemma onConnected_background:
  assumes "client_inv s" and "(k, p) \<in> set (plugins s)" and "runInBackground p"
    and h: "\<forall>it \<in> set (plugins s).
      fst it < k \<and> runInBackground (snd it) \<longrightarrow> didConnect (snd it) = Completes"
  shows "\<exists>n \<ge> allocated s. map_find k (connections (snd (onConnected crash s))) =
           Some \<lparr>handle = n, name = k, receiver = handleCall p\<rparr>"
    and "didConnect_calls k (trace (snd (onConnected crash s))) = didConnect_calls k (trace s) + 1"
proof -
  from assms(1,2) obtain pre post where sp: "plugins s = pre @ (k, p) # post"
    and pre: "\<forall>it \<in> set pre. fst it < k \<and> it \<in> set (plugins s)"
    and idp: "pluginIdentifier p = k"
    and kpost: "k \<notin> set (map fst post)"
    and ipre: "k \<notin> set (map (\<lambda>it. pluginIdentifier (snd it)) pre)"
    and ipost: "k \<notin> set (map (\<lambda>it. pluginIdentifier (snd it)) post)"
    by (rule registry_split)
  let ?s0 = "emit (Stdout ''Activating Background Plugins...'')
        ((emit (Log ''FlipperClient::onConnected'') s)\<lparr>connected := True\<rparr>)"
  let ?sA = "snd (startBackgroundPlugins_loop pre ?s0)"
  have "\<forall>it \<in> set pre. runInBackground (snd it) \<longrightarrow> didConnect (snd it) = Completes"
    using h pre by blast
  then have res: "snd (onConnected_lambda s) =
      snd (startBackgroundPlugins_loop ((k, p) # post) ?sA)"
    unfolding onConnected_lambda_eq sp by (rule startBackgroundPlugins_loop_append)
  have "map_find k (connections (snd (onConnected_lambda s))) =
      Some \<lparr>handle = allocated ?sA, name = k, receiver = handleCall p\<rparr>"
    unfolding res using startBackgroundPlugins_loop_at(1) [OF assms(3) kpost, of ?sA]
      ipost idp by simp
  then have "map_find k (connections (snd (onConnected crash s))) =
      Some \<lparr>handle = allocated ?sA, name = k, receiver = handleCall p\<rparr>"
    by (simp add: onConnected_def performAndReportError_fields)
  moreover have "allocated s \<le> allocated ?sA"
    using startBackgroundPlugins_loop_allocated [of ?s0 pre] by simp
  ultimately show "\<exists>n \<ge> allocated s. map_find k (connections (snd (onConnected crash s))) =
           Some \<lparr>handle = n, name = k, receiver = handleCall p\<rparr>"
    by blast
  have "didConnect_calls k (trace (snd (onConnected_lambda s))) =
      didConnect_calls k (trace ?sA) + 1"
    unfolding res using startBackgroundPlugins_loop_at(2) [OF assms(3) kpost, of ?sA]
      ipost idp by simp
  also have "didConnect_calls k (trace ?sA) = didConnect_calls k (trace ?s0)"
    using ipre by (rule startBackgroundPlugins_loop_calls_other)
  also have "\<dots> = didConnect_calls k (trace s)"
    by simp
  finally show "didConnect_calls k (trace (snd (onConnected crash s))) =
      didConnect_calls k (trace s) + 1"
    by (simp add: onConnected_def performAndReportError_didConnect_calls)
qed

lemma onDisconnected_connected:
  assumes "client_inv s" and "(k, p) \<in> set (plugins s)"
    and h: "\<forall>it \<in> set (plugins s).
        fst it < k \<and> map_find (fst it) (connections s) \<noteq> None \<longrightarrow>
        didDisconnect (snd it) = Completes"
    and conn: "map_find k (connections s) \<noteq> None"
  shows "map_find k (connections (snd (onDisconnected crash s))) = None"
    and "didDisconnect_calls k (trace (snd (onDisconnected crash s))) =
        didDisconnect_calls k (trace s) + 1"
proof -
  from assms(1,2) obtain pre post where sp: "plugins s = pre @ (k, p) # post"
    and pre: "\<forall>it \<in> set pre. fst it < k \<and> it \<in> set (plugins s)"
    and idp: "pluginIdentifier p = k"
    and kpost: "k \<notin> set (map fst post)"
    and ipre: "k \<notin> set (map (\<lambda>it. pluginIdentifier (snd it)) pre)"
    and ipost: "k \<notin> set (map (\<lambda>it. pluginIdentifier (snd it)) post)"
    by (rule registry_split)
  from assms(1) have keyed: "keyed_by_identifier s" by (simp add: client_inv_def)
  have key_id: "pluginIdentifier (snd it) = fst it" if "it \<in> set (plugins s)" for it
    using keyed that by (simp add: keyed_by_identifier_def list_all_iff)
  let ?s3 = "(emit (StepStart ''Trigger onDisconnected callbacks'')
             (emit (Log ''FlipperClient::onDisconnected'') s))\<lparr>connected := False\<rparr>"
  let ?sA = "snd (onDisconnected_loop pre ?s3)"
  have "\<forall>it \<in> set pre. map_find (pluginIdentifier (snd it)) (connections ?s3) \<noteq> None \<longrightarrow>
      didDisconnect (snd it) = Completes"
    using h pre key_id by simp
  then have res: "snd (onDisconnected_loop (plugins ?s3) ?s3) =
      snd (onDisconnected_loop ((k, p) # post) ?sA)"
    using onDisconnected_loop_append [of pre ?s3 "(k, p) # post"] by (simp add: sp)
  have "map_find k (connections ?sA) = map_find k (connections ?s3)"
    using ipre by (rule onDisconnected_loop_other)
  with conn have connA: "map_find (pluginIdentifier p) (connections ?sA) \<noteq> None"
    by (simp add: idp)
  have ipost': "pluginIdentifier p \<notin> set (map (\<lambda>it. pluginIdentifier (snd it)) post)"
    using ipost idp by simp
  have "map_find k (connections (snd (onDisconnected_lambda s))) = None"
    unfolding onDisconnected_lambda_snd
    using onDisconnected_loop_at(1) [OF connA ipost', of k] res idp by simp
  then show "map_find k (connections (snd (onDisconnected crash s))) = None"
    by (simp add: onDisconnected_def performAndReportError_fields)
  have "didDisconnect_calls k (trace (snd (onDisconnected_lambda s))) =
      didDisconnect_calls k (trace ?sA) + 1"
    unfolding onDisconnected_lambda_snd
    using onDisconnected_loop_at(2) [OF connA ipost', of k] res idp by simp
  also have "didDisconnect_calls k (trace ?sA) = didDisconnect_calls k (trace ?s3)"
    using ipre by (rule onDisconnected_loop_calls_other)
  also have "\<dots> = didDisconnect_calls k (trace s)"
    by simp
  finally show "didDisconnect_calls k (trace (snd (onDisconnected crash s))) =
      didDisconnect_calls k (trace s) + 1"
    by (simp add: onDisconnected_def performAndReportError_didDisconnect_calls)
qed

text \<open>
  Claim C4, as amended. Let a plugin that runs in the background be registered, in a
  state where the invariant holds. If the \<^verbatim>\<open>didConnect\<close> of no background plugin
  earlier in identifier order raises, then after \<open>onConnected\<close> the plugin has a
  connection entry and its \<^verbatim>\<open>didConnect\<close> was invoked exactly once by the call. If the
  plugin has a connection entry and the \<^verbatim>\<open>didDisconnect\<close> of no connected plugin
  earlier in identifier order raises, then after \<open>onDisconnected\<close> the entry is gone
  and its \<^verbatim>\<open>didDisconnect\<close> was invoked exactly once by the call. The plugin's own
  callback and those of later plugins may raise: the entry is stored, or erased, before
  the callback runs.
\<close>

theorem background_plugins_lifecycle:
  assumes "client_inv s" and "(k, p) \<in> set (plugins s)" and "runInBackground p"
  shows "((\<forall>it \<in> set (plugins s).
              fst it < k \<and> runInBackground (snd it) \<longrightarrow> didConnect (snd it) = Completes) \<longrightarrow>
            map_find k (connections (snd (onConnected crash s))) \<noteq> None \<and>
            didConnect_calls k (trace (snd (onConnected crash s))) =
              didConnect_calls k (trace s) + 1) \<and>
         ((\<forall>it \<in> set (plugins s).
              fst it < k \<and> map_find (fst it) (connections s) \<noteq> None \<longrightarrow>
              didDisconnect (snd it) = Completes) \<and>
          map_find k (connections s) \<noteq> None \<longrightarrow>
            map_find k (connections (snd (onDisconnected crash s))) = None \<and>
            didDisconnect_calls k (trace (snd (onDisconnected crash s))) =
              didDisconnect_calls k (trace s) + 1)"
proof (intro conjI impI)
  assume h: "\<forall>it \<in> set (plugins s).
      fst it < k \<and> runInBackground (snd it) \<longrightarrow> didConnect (snd it) = Completes"
  from onConnected_background(1) [OF assms h, of crash]
  show "map_find k (connections (snd (onConnected crash s))) \<noteq> None" by auto
  from onConnected_background(2) [OF assms h]
  show "didConnect_calls k (trace (snd (onConnected crash s))) = didConnect_calls k (trace s) + 1" .
next
  assume h: "(\<forall>it \<in> set (plugins s).
      fst it < k \<and> map_find (fst it) (connections s) \<noteq> None \<longrightarrow>
      didDisconnect (snd it) = Completes) \<and> map_find k (connections s) \<noteq> None"
  then have h1: "\<forall>it \<in> set (plugins s).
      fst it < k \<and> map_find (fst it) (connections s) \<noteq> None \<longrightarrow>
      didDisconnect (snd it) = Completes" and h2: "map_find k (connections s) \<noteq> None"
    by simp_all
  from onDisconnected_connected(1) [OF assms(1,2) h1 h2]
  show "map_find k (connections (snd (onDisconnected crash s))) = None" .
  from onDisconnected_connected(2) [OF assms(1,2) h1 h2]
  show "didDisconnect_calls k (trace (snd (onDisconnected crash s))) =
      didDisconnect_calls k (trace s) + 1" .
qed

theorem background_plugins_lifecycle_witness:
  "fst (onConnected_lambda (example_client
     [example_plugin ''a'' True Completes,
      example_plugin ''b'' True (Raises (std_exception ''boom'')),
      example_plugin ''c'' True Completes] False)) = Throws (std_exception ''boom'') \<and>
   map_find ''b'' (connections (snd (onConnected False (example_client
     [example_plugin ''a'' True Completes,
      example_plugin ''b'' True (Raises (std_exception ''boom'')),
      example_plugin ''c'' True Completes] False)))) \<noteq> None \<and>
   didConnect_calls ''b'' (trace (snd (onConnected False (example_client
     [example_plugin ''a'' True Completes,
      example_plugin ''b'' True (Raises (std_exception ''boom'')),
      example_plugin ''c'' True Completes] False)))) = 1 \<and>
   map_find ''b'' (connections (snd (onDisconnected False (snd (onConnected False
     (example_client
       [example_plugin ''a'' True Completes,
        example_plugin ''b'' True (Raises (std_exception ''boom'')),
        example_plugin ''c'' True Completes] False)))))) = None \<and>
   didDisconnect_calls ''b'' (trace (snd (onDisconnected False (snd (onConnected False
     (example_client
       [example_plugin ''a'' True Completes,
        example_plugin ''b'' True (Raises (std_exception ''boom'')),
        example_plugin ''c'' True Completes] False)))))) = 1"
proof -
  let ?pa = "example_plugin ''a'' True Completes"
  let ?p = "example_plugin ''b'' True (Raises (std_exception ''boom''))"
  let ?pc = "example_plugin ''c'' True Completes"
  let ?s = "example_client [?pa, ?p, ?pc] False"
  have inv: "client_inv ?s"
    by (simp add: client_inv_def example_client_def example_plugin_def new_client_def
        std_map_def keyed_by_identifier_def identifiers_unique_def
        connection_implies_plugin_def)
  have reg: "(''b'', ?p) \<in> set (plugins ?s)"
    by (simp add: example_client_def example_plugin_def new_client_def)
  have bg: "runInBackground ?p"
    by (simp add: example_plugin_def)
  have early: "\<forall>it \<in> set (plugins ?s).
      fst it < ''b'' \<and> runInBackground (snd it) \<longrightarrow> didConnect (snd it) = Completes"
    by (simp add: example_client_def example_plugin_def new_client_def)
  have s1: "onConnected False ?s = (Returns,
      \<lparr>plugins = [(''a'', ?pa), (''b'', ?p), (''c'', ?pc)],
       connections = [(''a'', \<lparr>handle = 0, name = ''a'', receiver = Completes\<rparr>),
         (''b'', \<lparr>handle = 1, name = ''b'', receiver = Completes\<rparr>)],
       connected = True,
       trace = [Log ''FlipperClient::onConnected'', Stdout ''Activating Background Plugins...'',
         Stdout ''a'', DidConnect ''a'' 0, Stdout ''b'', DidConnect ''b'' 1,
         SendMessage (error_message ''boom'')],
       allocated = 2\<rparr>)" (is "_ = (_, ?s1)")
    by (simp add: eval_defs)
  have r0: "fst (onConnected_lambda ?s) = Throws (std_exception ''boom'')"
    by (simp add: eval_defs)
  have t0: "didConnect_calls ''b'' (trace ?s) = 0"
    by (simp add: example_client_def new_client_def didConnect_calls_def)
  from background_plugins_lifecycle [OF inv reg bg, of False] early t0
  have a: "map_find ''b'' (connections (snd (onConnected False ?s))) \<noteq> None \<and>
      didConnect_calls ''b'' (trace (snd (onConnected False ?s))) = 1"
    by simp
  have inv1: "client_inv ?s1"
    by (simp add: client_inv_def example_plugin_def
        std_map_def keyed_by_identifier_def identifiers_unique_def
        connection_implies_plugin_def)
  have reg1: "(''b'', ?p) \<in> set (plugins ?s1)" by simp
  have early1: "\<forall>it \<in> set (plugins ?s1).
      fst it < ''b'' \<and> map_find (fst it) (connections ?s1) \<noteq> None \<longrightarrow>
      didDisconnect (snd it) = Completes"
    by (simp add: example_plugin_def)
  have c1: "map_find ''b'' (connections ?s1) \<noteq> None"
    by (simp add: map_find_def)
  have t1: "didDisconnect_calls ''b'' (trace ?s1) = 0"
    by (simp add: didDisconnect_calls_def)
  from background_plugins_lifecycle [OF inv1 reg1 bg, of False] early1 c1 t1
  have b: "map_find ''b'' (connections (snd (onDisconnected False ?s1))) = None \<and>
      didDisconnect_calls ''b'' (trace (snd (onDisconnected False ?s1))) = 1"
    by simp
  from r0 a b show ?thesis
    unfolding s1 snd_conv by simp
qed

text \<open>
  The claim as stated fails when the callback of an earlier plugin raises: \<open>a\<close> and
  \<open>b\<close> both run in the background, the \<^verbatim>\<open>didConnect\<close> of \<open>a\<close> throws, the loop is
  abandoned, and \<open>b\<close> is left without a connection entry and without a call of its
  \<^verbatim>\<open>didConnect\<close>.
\<close>

theorem background_plugins_lifecycle_counterexample:
  "runInBackground (example_plugin ''b'' True Completes) \<and>
   onConnected False (example_registered
     [example_plugin ''a'' True (Raises (std_exception ''boom'')),
      example_plugin ''b'' True Completes]) =
     (Returns,
      \<lparr>plugins = [(''a'', example_plugin ''a'' True (Raises (std_exception ''boom''))),
         (''b'', example_plugin ''b'' True Completes)],
       connections = [(''a'', \<lparr>handle = 0, name = ''a'', receiver = Completes\<rparr>)],
       connected = True,
       trace = [Log ''FlipperClient::addPlugin a'', StepStart ''Add plugin a'',
         StepComplete ''Add plugin a'', Log ''FlipperClient::addPlugin b'',
         StepStart ''Add plugin b'', StepComplete ''Add plugin b'',
         Log ''FlipperClient::onConnected'', Stdout ''Activating Background Plugins...'',
         Stdout ''a'', DidConnect ''a'' 0, SendMessage (error_message ''boom'')],
       allocated = 1\<rparr>)"
  by (simp add: eval_defs example_registered_def addPlugin_def addPlugin_lambda_def)

section \<open>Containing failures\<close>

text \<open>
  Claim C1, as amended. In the build without \<^verbatim>\<open>FLIPPER_ENABLE_CRASH\<close>, no entry point
  ends by throwing. When the function an entry point hands to the wrapper throws \<open>e\<close>
  in state \<open>s'\<close>, the entry point returns normally from \<open>s'\<close> with one more effect:
  if \<open>e\<close> is a \<^verbatim>\<open>std::exception\<close>, the error message built from its text is sent on
  the transport when the bridge is connected and the line "Error: <text>" is logged
  when it is not; if \<open>e\<close> is anything else, the line "Unknown error suppressed in
  FlipperClient" is logged, connected or not, and nothing is sent.
\<close>

theorem failures_contained:
  assumes "\<not> crash"
    and "(entry, body) \<in>
      {(addPlugin crash p, addPlugin_lambda crash p),
       (removePlugin crash p, removePlugin_lambda crash p),
       (onConnected crash, onConnected_lambda),
       (onDisconnected crash, onDisconnected_lambda),
       (onMessageReceived crash message, onMessageReceived_lambda message)}"
  shows "(\<forall>e. fst (entry s) \<noteq> Throws e) \<and>
         (\<forall>e s'. body s = (Throws e, s') \<longrightarrow>
            entry s =
              (Returns,
               emit (if is_std_exception e
                     then (if connected s' then SendMessage (error_message (what e))
                           else Log (''Error: '' @ what e))
                     else Log ''Unknown error suppressed in FlipperClient'') s'))"
proof -
  from assms have entry: "entry s = performAndReportError False body s"
    by (auto simp: addPlugin_def removePlugin_def onConnected_def onDisconnected_def
        onMessageReceived_def)
  show ?thesis
    unfolding entry
    by (cases "body s") (auto simp: performAndReportError_def split: outcome.splits)
qed

theorem failures_contained_witness:
  "fst (onConnected_lambda
     (example_client [example_plugin ''a'' True (Raises (std_exception ''boom''))] False)) =
     Throws (std_exception ''boom'') \<and>
   onConnected False
     (example_client [example_plugin ''a'' True (Raises (std_exception ''boom''))] False) =
     (Returns,
      \<lparr>plugins = [(''a'', example_plugin ''a'' True (Raises (std_exception ''boom'')))],
       connections = [(''a'', \<lparr>handle = 0, name = ''a'', receiver = Completes\<rparr>)],
       connected = True,
       trace = [Log ''FlipperClient::onConnected'', Stdout ''Activating Background Plugins...'',
         Stdout ''a'', DidConnect ''a'' 0,
         SendMessage (OBJECT [(''error'', OBJECT [(''message'', STRING ''boom''),
           (''stacktrace'', STRING ''<none>'')])])],
       allocated = 1\<rparr>)"
proof -
  let ?s = "example_client [example_plugin ''a'' True (Raises (std_exception ''boom''))] False"
  let ?s' = "\<lparr>plugins = [(''a'', example_plugin ''a'' True (Raises (std_exception ''boom'')))],
       connections = [(''a'', \<lparr>handle = 0, name = ''a'', receiver = Completes\<rparr>)],
       connected = True,
       trace = [Log ''FlipperClient::onConnected'', Stdout ''Activating Background Plugins...'',
         Stdout ''a'', DidConnect ''a'' 0],
       allocated = 1\<rparr>"
  have l: "onConnected_lambda ?s = (Throws (std_exception ''boom''), ?s')"
    by (simp add: example_client_def example_plugin_def new_client_def onConnected_lambda_def
        startBackgroundPlugins_def connect_def callback_def emit_def)
  have m: "(onConnected False, onConnected_lambda) \<in>
      {(addPlugin False p, addPlugin_lambda False p),
       (removePlugin False p, removePlugin_lambda False p),
       (onConnected False, onConnected_lambda),
       (onDisconnected False, onDisconnected_lambda),
       (onMessageReceived False message, onMessageReceived_lambda message)}" for p message
    by simp
  have "onConnected False ?s =
      (Returns, emit (SendMessage (error_message (what (std_exception ''boom'')))) ?s')"
    using failures_contained [of False "onConnected False" onConnected_lambda _ _ ?s, OF _ m] l
    by simp
  with l show ?thesis
    by (simp add: emit_def error_message_def)
qed

text \<open>
  The claim as stated fails for a failure that is no \<^verbatim>\<open>std::exception\<close>: the bridge is
  connected, the \<^verbatim>\<open>didConnect\<close> of \<open>a\<close> throws such a value, and the entry point logs
  the terse line and sends nothing on the transport.
\<close>

theorem failures_contained_counterexample:
  "onConnected False (example_registered [example_plugin ''a'' True (Raises non_std)]) =
     (Returns,
      \<lparr>plugins = [(''a'', example_plugin ''a'' True (Raises non_std))],
       connections = [(''a'', \<lparr>handle = 0, name = ''a'', receiver = Completes\<rparr>)],
       connected = True,
       trace = [Log ''FlipperClient::addPlugin a'', StepStart ''Add plugin a'',
         StepComplete ''Add plugin a'', Log ''FlipperClient::onConnected'',
         Stdout ''Activating Background Plugins...'', Stdout ''a'', DidConnect ''a'' 0,
         Log ''Unknown error suppressed in FlipperClient''],
       allocated = 1\<rparr>)"
  by (simp add: eval_defs example_registered_def addPlugin_def addPlugin_lambda_def)

section \<open>Connection handles\<close>

lemma handles_allocated_cong:
  "connections s' = connections s \<Longrightarrow> allocated s' = allocated s \<Longrightarrow>
   handles_allocated s' = handles_allocated s"
  by (simp add: handles_allocated_def)

lemma handles_allocated_emit [simp]: "handles_allocated (emit e s) = handles_allocated s"
  by (rule handles_allocated_cong) simp_all

lemma handles_connect:
  assumes "handles_allocated s"
  shows "handles_allocated (snd (connect k p s))"
proof -
  let ?c = "\<lparr>handle = allocated s, name = k, receiver = handleCall p\<rparr>"
  have "set (map_assign k ?c (connections s)) \<subseteq> insert (k, ?c) (set (connections s))"
    by (rule set_assign_subset)
  with assms show ?thesis
    by (auto simp: handles_allocated_def list_all_iff connect_fields connect_allocated
        less_Suc_eq)
qed

lemma handles_disconnect:
  assumes "handles_allocated s"
  shows "handles_allocated (snd (disconnect p s))"
proof -
  have "set (map_erase (pluginIdentifier p) (connections s)) \<subseteq> set (connections s)"
    by (rule set_erase_subset)
  with assms show ?thesis
    by (auto simp: handles_allocated_def list_all_iff disconnect_fields disconnect_allocated)
qed

lemma handles_startBackgroundPlugins_loop:
  "handles_allocated s \<Longrightarrow> handles_allocated (snd (startBackgroundPlugins_loop ps s))"
proof (induction ps arbitrary: s)
  case Nil
  then show ?case by simp
next
  case (Cons it rest)
  let ?s1 = "emit (Stdout (fst it)) s"
  show ?case
  proof (cases "connect (fst it) (snd it) ?s1")
    case (Pair r s2)
    have "handles_allocated (snd (connect (fst it) (snd it) ?s1))"
      using Cons.prems by (simp add: handles_connect)
    with Pair have h2: "handles_allocated s2" by simp
    then have "handles_allocated (snd (startBackgroundPlugins_loop rest s2))"
      by (rule Cons.IH)
    moreover have "handles_allocated (snd (startBackgroundPlugins_loop rest ?s1))"
      using Cons.prems by (intro Cons.IH) simp
    ultimately show ?thesis
      using Pair h2 by (cases r) (simp_all add: Let_def)
  qed
qed

lemma handles_onDisconnected_loop:
  "handles_allocated s \<Longrightarrow> handles_allocated (snd (onDisconnected_loop ps s))"
proof (induction ps arbitrary: s)
  case Nil
  then show ?case by simp
next
  case (Cons iter rest)
  show ?case
  proof (cases "disconnect (snd iter) s")
    case (Pair r s1)
    then have "handles_allocated s1"
      using handles_disconnect [OF Cons.prems, of "snd iter"] by simp
    with Pair Cons.IH show ?thesis
      by (cases r) simp_all
  qed
qed

lemma handles_performAndReportError:
  "handles_allocated (snd (func s)) \<Longrightarrow>
   handles_allocated (snd (performAndReportError crash func s))"
  by (cases "func s") (auto simp: performAndReportError_def split: outcome.splits)

lemma handles_refreshPlugins:
  "handles_allocated s \<Longrightarrow> handles_allocated (snd (refreshPlugins crash s))"
  unfolding refreshPlugins_def by (rule handles_performAndReportError) simp

lemma handles_update [simp]:
  "handles_allocated (s\<lparr>plugins := ps\<rparr>) = handles_allocated s"
  "handles_allocated (s\<lparr>connected := c\<rparr>) = handles_allocated s"
  by (simp_all add: handles_allocated_def)

lemma handles_addPlugin_lambda:
  "handles_allocated s \<Longrightarrow> handles_allocated (snd (addPlugin_lambda crash p s))"
  by (simp add: addPlugin_lambda_def Let_def handles_refreshPlugins)

lemma handles_removePlugin_lambda:
  assumes "handles_allocated s"
  shows "handles_allocated (snd (removePlugin_lambda crash p s))"
proof -
  let ?s1 = "emit (Log (''FlipperClient::removePlugin '' @ pluginIdentifier p)) s"
  obtain r s2 where d: "disconnect p ?s1 = (r, s2)" by (cases "disconnect p ?s1")
  have "handles_allocated (snd (disconnect p ?s1))"
    using assms by (simp add: handles_disconnect)
  with d have "handles_allocated s2" by simp
  with assms d show ?thesis
    by (cases r) (simp_all add: removePlugin_lambda_def Let_def handles_refreshPlugins)
qed

lemma handles_onConnected_lambda:
  "handles_allocated s \<Longrightarrow> handles_allocated (snd (onConnected_lambda s))"
  by (simp add: onConnected_lambda_def startBackgroundPlugins_def Let_def
      handles_startBackgroundPlugins_loop)

lemma handles_onDisconnected_lambda:
  assumes "handles_allocated s"
  shows "handles_allocated (snd (onDisconnected_lambda s))"
proof -
  let ?s3 = "(emit (StepStart ''Trigger onDisconnected callbacks'')
               (emit (Log ''FlipperClient::onDisconnected'') s))\<lparr>connected := False\<rparr>"
  have "handles_allocated (snd (onDisconnected_loop (plugins ?s3) ?s3))"
    using assms by (intro handles_onDisconnected_loop) simp
  then show ?thesis
    by (cases "onDisconnected_loop (plugins ?s3) ?s3")
       (auto simp: onDisconnected_lambda_def Let_def split: outcome.splits)
qed

lemma handles_onMessageReceived_lambda:
  assumes "handles_allocated s"
  shows "handles_allocated (snd (onMessageReceived_lambda message s))"
proof -
  have "handles_allocated (snd (getPlugins_branch r s))" for r
    using assms by (simp add: getPlugins_branch_def responder_success_def split: option.splits)
  moreover have "handles_allocated (snd (init_branch m ps s))" for m ps
    using assms by (simp add: init_branch_def handles_connect split: sum.splits option.splits)
  moreover have "handles_allocated (snd (deinit_branch m ps s))" for m ps
    using assms by (simp add: deinit_branch_def handles_disconnect split: sum.splits option.splits)
  moreover have "handles_allocated (snd (execute_branch m ps r s))" for m ps r
    using assms
    by (simp add: execute_branch_def connection_call_def split: sum.splits option.splits)
  moreover have "handles_allocated (snd (unknown_method m r s))" for m r
    using assms
    by (simp add: unknown_method_def responder_error_def split: sum.splits option.splits)
  ultimately show ?thesis
    using assms by (simp add: onMessageReceived_lambda_def split: sum.splits)
qed

lemma reachable_handles: "reachable s \<Longrightarrow> handles_allocated s"
proof (induction rule: reachable.induct)
  case reachable_new
  show ?case by (simp add: handles_allocated_def new_client_def)
next
  case (reachable_addPlugin s crash p)
  then show ?case
    unfolding addPlugin_def by (intro handles_performAndReportError handles_addPlugin_lambda)
next
  case (reachable_removePlugin s crash p)
  then show ?case
    unfolding removePlugin_def
    by (intro handles_performAndReportError handles_removePlugin_lambda)
next
  case (reachable_onConnected s crash)
  then show ?case
    unfolding onConnected_def
    by (intro handles_performAndReportError handles_onConnected_lambda)
next
  case (reachable_onDisconnected s crash)
  then show ?case
    unfolding onDisconnected_def
    by (intro handles_performAndReportError handles_onDisconnected_lambda)
next
  case (reachable_onMessageReceived s crash message)
  then show ?case
    unfolding onMessageReceived_def
    by (intro handles_performAndReportError handles_onMessageReceived_lambda)
qed

lemma filter_distinct_at_most_one:
  "distinct (map f xs) \<Longrightarrow> length (filter (\<lambda>x. f x = y) xs) \<le> 1"
proof (cases "y \<in> set (map f xs)")
  case True
  assume "distinct (map f xs)"
  from this True have "length (filter (\<lambda>x. f x = y) xs) = 1"
    by (rule filter_distinct_one)
  then show ?thesis by simp
next
  case False
  then have "filter (\<lambda>x. f x = y) xs = []"
    by (auto simp: filter_empty_conv)
  then show ?thesis by simp
qed

lemma example_initialised_reachable: "reachable example_initialised"
  unfolding example_initialised_def by (intro reachable.intros)

text \<open>
  Claim C9, as amended. In every reachable state the connection table holds at most
  one handle per identifier, and the handle allocated next is none of those in the
  table. The dispatcher does not look for an existing entry before it creates a
  handle. An \<^verbatim>\<open>init\<close> message (with no \<^verbatim>\<open>id\<close> or an integer one) for a registered
  plugin that does not run in the background stores the newly allocated handle under
  the identifier, in place of the handle that was there if there was one, and invokes
  \<^verbatim>\<open>didConnect\<close> once more. \<open>onConnected\<close> does the same for a registered background
  plugin, when the \<^verbatim>\<open>didConnect\<close> of no background plugin earlier in identifier order
  raises: afterwards the table holds under its identifier a handle that was not in the
  table before. Both run \<open>connect\<close>, which stores the new handle whatever the table
  holds.
\<close>

theorem connection_handles:
  assumes "reachable s"
  shows "length (filter (\<lambda>kc. fst kc = k) (connections s)) \<le> 1 \<and>
         allocated s \<notin> set (map (\<lambda>kc. handle (snd kc)) (connections s)) \<and>
         (map_of kvs ''method'' = Some (STRING ''init'') \<and>
          map_of kvs ''id'' = map_option INT64 responder \<and>
          map_of kvs ''params'' = Some (OBJECT ps) \<and>
          map_of ps ''plugin'' = Some (STRING ident) \<and>
          map_find ident (plugins s) = Some p \<and> \<not> runInBackground p \<longrightarrow>
            map_find ident (connections (snd (onMessageReceived crash (OBJECT kvs) s))) =
              Some \<lparr>handle = allocated s, name = ident, receiver = handleCall p\<rparr> \<and>
            didConnect_calls ident (trace (snd (onMessageReceived crash (OBJECT kvs) s))) =
              didConnect_calls ident (trace s) + 1) \<and>
         ((k', q) \<in> set (plugins s) \<and> runInBackground q \<and>
          (\<forall>it \<in> set (plugins s).
             fst it < k' \<and> runInBackground (snd it) \<longrightarrow> didConnect (snd it) = Completes) \<longrightarrow>
            (\<exists>c. map_find k' (connections (snd (onConnected crash s))) = Some c \<and>
               handle c \<notin> set (map (\<lambda>kc. handle (snd kc)) (connections s))) \<and>
            didConnect_calls k' (trace (snd (onConnected crash s))) =
              didConnect_calls k' (trace s) + 1) \<and>
         map_find k'' (connections (snd (connect k'' q' s))) =
           Some \<lparr>handle = allocated s, name = k'', receiver = handleCall q'\<rparr>"
proof -
  from assms have inv: "client_inv s" and ha: "handles_allocated s"
    by (rule reachable_inv, rule reachable_handles)
  from inv have "std_map (connections s)" and keyed: "keyed_by_identifier s"
    by (simp_all add: client_inv_def)
  then have "distinct (map fst (connections s))"
    by (simp add: std_map_def strict_sorted_iff)
  then have one: "length (filter (\<lambda>kc. fst kc = k) (connections s)) \<le> 1"
    by (rule filter_distinct_at_most_one)
  have below: "\<forall>kc \<in> set (connections s). handle (snd kc) < allocated s"
    using ha by (simp add: handles_allocated_def list_all_iff)
  then have fresh: "allocated s \<notin> set (map (\<lambda>kc. handle (snd kc)) (connections s))"
    by auto
  have init: "map_find ident (connections (snd (onMessageReceived crash (OBJECT kvs) s))) =
        Some \<lparr>handle = allocated s, name = ident, receiver = handleCall p\<rparr> \<and>
      didConnect_calls ident (trace (snd (onMessageReceived crash (OBJECT kvs) s))) =
        didConnect_calls ident (trace s) + 1"
    if m: "map_of kvs ''method'' = Some (STRING ''init'')"
      "map_of kvs ''id'' = map_option INT64 responder"
      "map_of kvs ''params'' = Some (OBJECT ps)"
      "map_of ps ''plugin'' = Some (STRING ident)"
      and reg: "map_find ident (plugins s) = Some p" and nb: "\<not> runInBackground p"
  proof -
    from reg have "(ident, p) \<in> set (plugins s)" by (rule map_find_Some)
    with keyed have id: "pluginIdentifier p = ident"
      by (auto simp: keyed_by_identifier_def list_all_iff)
    have l: "onMessageReceived_lambda (OBJECT kvs) s = connect ident p s"
      using m reg nb id
      by (simp add: onMessageReceived_lambda_def make_responder_eq init_branch_def)
    have "connections (snd (onMessageReceived crash (OBJECT kvs) s)) =
        map_assign ident \<lparr>handle = allocated s, name = ident, receiver = handleCall p\<rparr>
          (connections s)"
      by (simp add: onMessageReceived_def performAndReportError_fields l connect_fields)
    then have stored: "map_find ident (connections (snd (onMessageReceived crash (OBJECT kvs) s))) =
        Some \<lparr>handle = allocated s, name = ident, receiver = handleCall p\<rparr>"
      by (simp add: map_find_assign)
    have "didConnect_calls ident (trace (snd (onMessageReceived crash (OBJECT kvs) s))) =
        didConnect_calls ident (trace (snd (connect ident p s)))"
      unfolding onMessageReceived_def performAndReportError_didConnect_calls l ..
    then have "didConnect_calls ident (trace (snd (onMessageReceived crash (OBJECT kvs) s))) =
        didConnect_calls ident (trace s) + 1"
      by (simp add: connect_trace id)
    with stored show ?thesis by simp
  qed
  have background: "(\<exists>c. map_find k' (connections (snd (onConnected crash s))) = Some c \<and>
        handle c \<notin> set (map (\<lambda>kc. handle (snd kc)) (connections s))) \<and>
      didConnect_calls k' (trace (snd (onConnected crash s))) =
        didConnect_calls k' (trace s) + 1"
    if reg: "(k', q) \<in> set (plugins s)" and bg: "runInBackground q"
      and early: "\<forall>it \<in> set (plugins s).
        fst it < k' \<and> runInBackground (snd it) \<longrightarrow> didConnect (snd it) = Completes"
  proof -
    from onConnected_background(1) [OF inv reg bg early, of crash]
    obtain n where n: "allocated s \<le> n"
      and f: "map_find k' (connections (snd (onConnected crash s))) =
        Some \<lparr>handle = n, name = k', receiver = handleCall q\<rparr>"
      by blast
    from below n have "n \<notin> set (map (\<lambda>kc. handle (snd kc)) (connections s))"
      by auto
    with f onConnected_background(2) [OF inv reg bg early, of crash] show ?thesis
      by simp
  qed
  have both: "map_find k'' (connections (snd (connect k'' q' s))) =
      Some \<lparr>handle = allocated s, name = k'', receiver = handleCall q'\<rparr>"
    by (simp add: connect_fields map_find_assign)
  from one fresh init background both show ?thesis by blast
qed

theorem connection_handles_witness:
  "reachable example_initialised \<and>
   map_find ''a'' (plugins example_initialised) = Some (example_plugin ''a'' False Completes) \<and>
   length (filter (\<lambda>kc. fst kc = ''a'') (connections example_initialised)) \<le> 1 \<and>
   map_find ''a'' (connections (snd (onMessageReceived False
     (example_message ''init'' ''plugin'' ''a'') example_initialised))) =
     Some \<lparr>handle = 1, name = ''a'', receiver = Completes\<rparr> \<and>
   1 \<notin> set (map (\<lambda>kc. handle (snd kc)) (connections example_initialised)) \<and>
   didConnect_calls ''a'' (trace (snd (onMessageReceived False
     (example_message ''init'' ''plugin'' ''a'') example_initialised))) = 2 \<and>
   map_find ''b'' (connections (snd (onConnected False
     (example_registered [example_plugin ''b'' True Completes])))) =
     Some \<lparr>handle = 0, name = ''b'', receiver = Completes\<rparr> \<and>
   (\<exists>c. map_find ''b'' (connections (snd (onConnected False (snd (onConnected False
       (example_registered [example_plugin ''b'' True Completes])))))) = Some c \<and>
      handle c \<notin> set (map (\<lambda>kc. handle (snd kc)) (connections (snd (onConnected False
       (example_registered [example_plugin ''b'' True Completes]))))))"
proof -
  have f: "map_find ''a'' (plugins example_initialised) = Some (example_plugin ''a'' False Completes)"
    by (simp add: example_initialised_eq map_find_def)
  have b: "\<not> runInBackground (example_plugin ''a'' False Completes)"
    by (simp add: example_plugin_def)
  have a: "allocated example_initialised = 1"
    and h: "handleCall (example_plugin ''a'' False Completes) = Completes"
    and t: "didConnect_calls ''a'' (trace example_initialised) = 1"
    by (simp_all add: example_initialised_eq example_plugin_def didConnect_calls_def)
  have m: "example_message ''init'' ''plugin'' ''a'' =
      OBJECT [(''method'', STRING ''init''), (''params'', OBJECT [(''plugin'', STRING ''a'')])]"
    by (simp add: example_message_def)
  have first: "length (filter (\<lambda>kc. fst kc = ''a'') (connections example_initialised)) \<le> 1 \<and>
      map_find ''a'' (connections (snd (onMessageReceived False
        (example_message ''init'' ''plugin'' ''a'') example_initialised))) =
        Some \<lparr>handle = 1, name = ''a'', receiver = Completes\<rparr> \<and>
      1 \<notin> set (map (\<lambda>kc. handle (snd kc)) (connections example_initialised)) \<and>
      didConnect_calls ''a'' (trace (snd (onMessageReceived False
        (example_message ''init'' ''plugin'' ''a'') example_initialised))) = 2"
    unfolding m
    using f b
      connection_handles [where responder = None and ident = "''a''" and k = "''a''"
        and ps = "[(''plugin'', STRING ''a'')]" and crash = False
        and p = "example_plugin ''a'' False Completes"
        and kvs = "[(''method'', STRING ''init''), (''params'', OBJECT [(''plugin'', STRING ''a'')])]",
        OF example_initialised_reachable]
    by (simp add: a h t)
  let ?q = "example_plugin ''b'' True Completes"
  let ?sC = "snd (onConnected False (example_registered [?q]))"
  have r: "reachable ?sC"
    by (simp add: example_registered_def reachable.intros)
  have sC: "?sC =
      \<lparr>plugins = [(''b'', ?q)],
       connections = [(''b'', \<lparr>handle = 0, name = ''b'', receiver = Completes\<rparr>)],
       connected = True,
       trace = [Log ''FlipperClient::addPlugin b'', StepStart ''Add plugin b'',
         StepComplete ''Add plugin b'', Log ''FlipperClient::onConnected'',
         Stdout ''Activating Background Plugins...'', Stdout ''b'', DidConnect ''b'' 0],
       allocated = 1\<rparr>"
    by (simp add: eval_defs example_registered_def addPlugin_def addPlugin_lambda_def)
  have reg: "(''b'', ?q) \<in> set (plugins ?sC)"
    unfolding sC by simp
  have bg: "runInBackground ?q"
    by (simp add: example_plugin_def)
  have early: "\<forall>it \<in> set (plugins ?sC).
      fst it < ''b'' \<and> runInBackground (snd it) \<longrightarrow> didConnect (snd it) = Completes"
    unfolding sC by simp
  have c0: "map_find ''b'' (connections ?sC) =
      Some \<lparr>handle = 0, name = ''b'', receiver = Completes\<rparr>"
    unfolding sC by (simp add: map_find_def)
  have second: "\<exists>c. map_find ''b'' (connections (snd (onConnected False ?sC))) = Some c \<and>
      handle c \<notin> set (map (\<lambda>kc. handle (snd kc)) (connections ?sC))"
    using connection_handles [where k' = "''b''" and q = ?q and crash = False, OF r]
      reg bg early
    by blast
  from example_initialised_reachable f first c0 second show ?thesis
    by (simp only: simp_thms)
qed

text \<open>
  The claim as stated fails: plugin \<open>a\<close> has the handle 0, a second \<^verbatim>\<open>init\<close> message
  arrives, and the table then holds the handle 1 under \<open>a\<close>: the existing handle was
  replaced while it existed, and \<^verbatim>\<open>didConnect\<close> ran a second time.
\<close>

theorem connection_handles_counterexample:
  "map_find ''a'' (connections example_initialised) =
     Some \<lparr>handle = 0, name = ''a'', receiver = Completes\<rparr> \<and>
   onMessageReceived False (example_message ''init'' ''plugin'' ''a'') example_initialised =
     (Returns,
      \<lparr>plugins = [(''a'', example_plugin ''a'' False Completes)],
       connections = [(''a'', \<lparr>handle = 1, name = ''a'', receiver = Completes\<rparr>)],
       connected = False,
       trace = [Log ''FlipperClient::addPlugin a'', StepStart ''Add plugin a'',
         StepComplete ''Add plugin a'', DidConnect ''a'' 0, DidConnect ''a'' 1],
       allocated = 2\<rparr>)"
  by (simp add: example_initialised_eq example_message_def example_plugin_def
      onMessageReceived_def performAndReportError_def onMessageReceived_lambda_def
      make_responder_def init_branch_def map_find_def connect_def callback_def emit_def)

end
